theory Spec2Isabelle
  imports Main
begin

section \<open>Data model of the test runner (src/runner/runner.ts)\<close>

text \<open>
  Exceptions of the source are values: a function that can throw returns the error
  (if any) together with the state it has reached, since the mutations made before a
  JavaScript exception are not rolled back.
\<close>

datatype error = TypeError string | ApiError string

text \<open>
  Modelled from the spec: the \<open>TestData\<close> classes of \<open>../testTreeData\<close> are outside
  the source file. The spec describes them as a tagged variant over folder, file and case,
  where only a case carries a name pattern (\<open>getTestNamePattern\<close>) and a case knows
  the file it belongs to (\<open>data.file.filepath\<close>).
\<close>

datatype test_data =
    TestFolder
  | TestFile string
  | TestCase string string

text \<open>
  A \<open>vscode.TestItem\<close> together with the test data that \<open>getTestData\<close> finds for it.
  The \<open>uri\<close> of an item is optional in the editor's interface.
\<close>

datatype test_item =
  TestItem (item_id: string) (item_label: string) (item_uri: "string option")
           (item_data: test_data) (item_children: "test_item list")

datatype origin = Issued nat | Synthesized

record request =
  req_origin :: origin
  req_include :: "test_item list option"
  req_profile :: "string option"
  req_continuous :: bool

subsection \<open>Values delivered by the test framework\<close>

text \<open>
  \<open>actual\<close> and \<open>expected\<close> of an error are of type \<open>any\<close>; a missing field reads as
  \<open>undefined\<close>.
\<close>

datatype js_value = JUndefined | JNull | JString string | JNumber int | JBool bool

text \<open>Line and column of a stack frame: a number that may be \<open>NaN\<close>.\<close>

datatype js_number = NaN | Number int

record parsed_stack =
  stack_file :: string
  stack_line :: js_number
  stack_column :: js_number

record error_with_diff =
  err_message :: string
  err_stack :: "string option"
  err_actual :: js_value
  err_expected :: js_value
  err_stacks :: "parsed_stack list option"

datatype task_state = Fail | Pass | Todo | Skip | Only | Run | Unknown string

record task_result =
  res_state :: task_state
  res_errors :: "error_with_diff list option"
  res_duration :: "nat option"

datatype task_type = Suite | Test | Custom

datatype run_mode = ModeRun | ModeSkip | ModeOnly | ModeTodo

record task =
  task_id :: string
  task_name :: string
  task_type :: task_type
  task_mode :: run_mode
  task_result :: "task_result option"
  task_filepath :: string

subsection \<open>What the runner reports to the editor\<close>

record debugger_location =
  loc_path :: string
  loc_line :: js_number
  loc_column :: js_number

text \<open>
  A \<open>vscode.TestMessage\<close>: its text, the expected and actual output when it was built by
  \<open>TestMessage.diff\<close>, and its location (path, line, character).
\<close>

record test_message =
  msg_text :: string
  msg_diff :: "(js_value \<times> js_value) option"
  msg_location :: "(string \<times> js_number \<times> js_number) option"

datatype report =
    Enqueued test_item
  | Started test_item
  | Passed test_item "nat option"
  | Failed test_item "test_message list" "nat option"
  | Errored test_item "test_message list" "nat option"
  | Skipped test_item
  | AppendOutput string "test_item option"
  | AddCoverage string
  | RunEnd

datatype api_call =
    WatchTests "(string list \<times> string option) option"
  | RunFiles "(string list \<times> string option) option"
  | UnwatchTests
  | CancelRun
  | EnableCoverage
  | ClearListeners

datatype log_entry =
    CannotFindTask string
  | TestDataNotFound string
  | UnknownTestResult string task_state
  | RunningAllTests string
  | RunningWithPattern nat string
  | RunningFilesInfo nat "string list"
  | ConsoleOutput string

subsection \<open>Collaborators outside the source file\<close>

text \<open>The lookups of the explorer tree (\<open>../testTree\<close>), taken as parameters.\<close>

record tree =
  getTestDataByTaskId :: "string \<Rightarrow> test_item option"
  getTestDataByTask :: "task \<Rightarrow> test_item option"
  getFileTestItems :: "string \<Rightarrow> test_item list"
  getOrCreateFolderTestItem :: "string \<Rightarrow> test_item"

datatype platform = Posix | Win32

text \<open>
  Library functions and host facts the source file imports: \<open>strip-ansi\<close>, \<open>pathe\<close>,
  \<open>getTasks\<close> of the framework's client, the tree's \<open>collectFile\<close>, and the coverage
  helpers.
\<close>

record host =
  host_platform :: platform
  stripAnsi :: "string \<Rightarrow> string"
  normalize_path :: "string \<Rightarrow> string"
  basename :: "string \<Rightarrow> string"
  dirname :: "string \<Rightarrow> string"
  join_path :: "string \<Rightarrow> string \<Rightarrow> string"
  workspaceFolder :: string
  getTasks :: "task list \<Rightarrow> task list"
  collectFile :: "tree \<Rightarrow> task \<Rightarrow> tree"
  hasFileCoverage :: bool
  getCoverageConfig :: "error + (bool \<times> string)"
  waitUntilExists :: "string \<Rightarrow> error option"
  applyCoverage :: "nat \<Rightarrow> string \<Rightarrow> error option"

subsection \<open>The state of a \<open>TestRunner\<close>\<close>

text \<open>
  A \<open>vscode.TestRun\<close> is identified by its position in \<open>runs\<close>, the list of the runs
  created so far; \<open>run_file\<close> is what \<open>TestRunData\<close> registers for it. The calls made
  on runs are kept in order in \<open>reports\<close>. \<open>itemError\<close> holds the \<open>error\<close> text
  assigned to test items.
\<close>

record test_run =
  run_request :: request
  run_name :: string
  run_file :: string

record runner =
  continuousRequests :: "request list"
  simpleTestRunRequest :: "request option"
  testRunsByFile :: "string \<rightharpoonup> nat"
  runs :: "test_run list"
  reports :: "(nat \<times> report) list"
  itemError :: "test_item \<rightharpoonup> string"
  apiCalls :: "api_call list"
  logs :: "log_entry list"
  shownErrors :: "(string \<times> error) list"

text \<open>
  An awaited call of the execution collaborator: while it is pending other events are
  handled, so it maps the state at the call to the state at its return, and it may throw.
\<close>

type_synonym api = "api_call \<Rightarrow> runner \<Rightarrow> error option \<times> runner"

section \<open>Pattern and file resolver\<close>

text \<open>\<open>Array.prototype.join\<close> on strings.\<close>

fun join :: "string \<Rightarrow> string list \<Rightarrow> string" where
  "join sep [] = []"
| "join sep [x] = x"
| "join sep (x # y # ys) = x @ sep @ join sep (y # ys)"

definition hasTestNamePattern :: "test_data \<Rightarrow> bool" where
  "hasTestNamePattern d = (case d of TestCase fp pat \<Rightarrow> True | _ \<Rightarrow> False)"

definition getTestNamePattern :: "test_data \<Rightarrow> string" where
  "getTestNamePattern d = (case d of TestCase fp pat \<Rightarrow> pat | _ \<Rightarrow> [])"

text \<open>The loop of \<open>formatTestPattern\<close>: \<open>patterns\<close> is the array being pushed to.\<close>

fun pushPatterns :: "test_item list \<Rightarrow> string list \<Rightarrow> string list" where
  "pushPatterns [] patterns = patterns"
| "pushPatterns (test # tests) patterns =
     (if \<not> hasTestNamePattern (item_data test) then pushPatterns tests patterns
      else pushPatterns tests (patterns @ [getTestNamePattern (item_data test)]))"

definition formatTestPattern :: "test_item list \<Rightarrow> string option" where
  "formatTestPattern tests =
     (let patterns = pushPatterns tests []
      in if length patterns = 0 then None else Some (join ''|'' patterns))"

text \<open>
  \<open>Array.from(new Set(xs))\<close>: the first occurrence of each element, in insertion order.
\<close>

fun setFrom :: "string list \<Rightarrow> string list \<Rightarrow> string list" where
  "setFrom [] seen = seen"
| "setFrom (x # xs) seen = (if x \<in> set seen then setFrom xs seen else setFrom xs (seen @ [x]))"

text \<open>A \<open>map\<close> whose callback may throw: it stops at the first exception.\<close>

fun mapE :: "('a \<Rightarrow> error + 'b) \<Rightarrow> 'a list \<Rightarrow> error + 'b list" where
  "mapE f [] = Inr []"
| "mapE f (x # xs) =
     (case f x of
        Inl e \<Rightarrow> Inl e
      | Inr y \<Rightarrow> (case mapE f xs of Inl e \<Rightarrow> Inl e | Inr ys \<Rightarrow> Inr (y # ys)))"

text \<open>\<open>test.uri!.fsPath\<close>: reading \<open>fsPath\<close> of an absent uri throws.\<close>

definition fsPath :: "test_item \<Rightarrow> error + string" where
  "fsPath test =
     (case item_uri test of
        None \<Rightarrow> Inl (TypeError ''Cannot read properties of undefined (reading fsPath)'')
      | Some p \<Rightarrow> Inr p)"

definition testFilePath :: "host \<Rightarrow> test_item \<Rightarrow> error + string" where
  "testFilePath h test =
     (case fsPath test of
        Inl e \<Rightarrow> Inl e
      | Inr p \<Rightarrow>
          (if item_data test = TestFolder then Inr (normalize_path h p @ ''/'')
           else Inr (normalize_path h p)))"

definition getTestFiles :: "host \<Rightarrow> test_item list \<Rightarrow> error + string list" where
  "getTestFiles h tests =
     (case mapE (testFilePath h) tests of
        Inl e \<Rightarrow> Inl e
      | Inr paths \<Rightarrow> Inr (setFrom (filter (\<lambda>p. p \<noteq> []) paths) []))"

section \<open>Result mapper\<close>

definition path_sep :: "platform \<Rightarrow> string" where
  "path_sep pf = (case pf of Posix \<Rightarrow> ''/'' | Win32 \<Rightarrow> [CHR 0x5C])"

text \<open>\<open>s.replace(/\//g, sep)\<close>.\<close>

definition replaceSlashes :: "string \<Rightarrow> string \<Rightarrow> string" where
  "replaceSlashes sep s = concat (map (\<lambda>c. if c = CHR ''/'' then sep else [c]) s)"

definition isNaN :: "js_number \<Rightarrow> bool" where
  "isNaN n = (case n of NaN \<Rightarrow> True | Number i \<Rightarrow> False)"

definition minus_one :: "js_number \<Rightarrow> js_number" where
  "minus_one n = (case n of NaN \<Rightarrow> NaN | Number i \<Rightarrow> Number (i - 1))"

definition getSourceFilepathAndLocationFromStack ::
    "host \<Rightarrow> parsed_stack \<Rightarrow> string \<times> js_number \<times> js_number" where
  "getSourceFilepathAndLocationFromStack h stack =
     (replaceSlashes (path_sep (host_platform h)) (stack_file stack),
      stack_line stack, stack_column stack)"

text \<open>The \<open>for\<close> loop of \<open>parseLocationFromStacks\<close>.\<close>

fun scanStacks :: "host \<Rightarrow> string \<Rightarrow> parsed_stack list \<Rightarrow> debugger_location option" where
  "scanStacks h targetFilepath [] = None"
| "scanStacks h targetFilepath (stack # stacks) =
     (case getSourceFilepathAndLocationFromStack h stack of
        (sourceFilepath, line, column) \<Rightarrow>
          (if sourceFilepath \<noteq> targetFilepath \<or> isNaN column \<or> isNaN line
           then scanStacks h targetFilepath stacks
           else Some \<lparr>loc_path = sourceFilepath, loc_line = line, loc_column = column\<rparr>))"

definition parseLocationFromStacks ::
    "host \<Rightarrow> test_item \<Rightarrow> parsed_stack list \<Rightarrow> error + debugger_location option" where
  "parseLocationFromStacks h testItem stacks =
     (if length stacks = 0 then Inr None
      else (case fsPath testItem of
              Inl e \<Rightarrow> Inl e
            | Inr targetFilepath \<Rightarrow> Inr (scanStacks h targetFilepath stacks)))"

definition plainMessage :: "string \<Rightarrow> test_message" where
  "plainMessage text = \<lparr>msg_text = text, msg_diff = None, msg_location = None\<rparr>"

definition diffMessage :: "string \<Rightarrow> js_value \<Rightarrow> js_value \<Rightarrow> test_message" where
  "diffMessage text expected actual =
     \<lparr>msg_text = text, msg_diff = Some (expected, actual), msg_location = None\<rparr>"

text \<open>\<open>v != null\<close> is false for \<open>null\<close> and for \<open>undefined\<close> only.\<close>

definition notNullish :: "js_value \<Rightarrow> bool" where
  "notNullish v = (v \<noteq> JNull \<and> v \<noteq> JUndefined)"

definition testMessageForTestError ::
    "host \<Rightarrow> test_item \<Rightarrow> error_with_diff option \<Rightarrow> error + test_message" where
  "testMessageForTestError h testItem error =
     (case error of
        None \<Rightarrow> Inr (plainMessage ''Unknown error'')
      | Some err \<Rightarrow>
          (let testMessage =
                 (if notNullish (err_actual err) \<and> notNullish (err_expected err)
                     \<and> err_actual err \<noteq> JString ''undefined''
                     \<and> err_expected err \<noteq> JString ''undefined''
                  then diffMessage (stripAnsi h (err_message err)) (err_expected err) (err_actual err)
                  else plainMessage (stripAnsi h (err_message err)))
           in (case parseLocationFromStacks h testItem
                      (case err_stacks err of None \<Rightarrow> [] | Some stacks \<Rightarrow> stacks) of
                 Inl e \<Rightarrow> Inl e
               | Inr None \<Rightarrow> Inr testMessage
               | Inr (Some location) \<Rightarrow>
                   Inr (testMessage\<lparr>msg_location :=
                          Some (loc_path location, minus_one (loc_line location),
                                minus_one (loc_column location))\<rparr>))))"

definition report :: "nat \<Rightarrow> report \<Rightarrow> runner \<Rightarrow> runner" where
  "report testRun call s = s\<lparr>reports := reports s @ [(testRun, call)]\<rparr>"

definition logEntry :: "log_entry \<Rightarrow> runner \<Rightarrow> runner" where
  "logEntry entry s = s\<lparr>logs := logs s @ [entry]\<rparr>"

text \<open>\<open>err.stack || err.message\<close>: an absent or empty stack gives the message.\<close>

definition stackOrMessage :: "error_with_diff \<Rightarrow> string" where
  "stackOrMessage err =
     (case err_stack err of
        None \<Rightarrow> err_message err
      | Some st \<Rightarrow> if st = [] then err_message err else st)"

definition isSuite :: "task option \<Rightarrow> bool" where
  "isSuite task = (case task of None \<Rightarrow> False | Some t \<Rightarrow> task_type t = Suite)"

definition markResult ::
    "host \<Rightarrow> nat \<Rightarrow> test_item \<Rightarrow> task_result option \<Rightarrow> task option \<Rightarrow> runner
      \<Rightarrow> error option \<times> runner" where
  "markResult h testRun test result task s =
     (case result of
        None \<Rightarrow> (None, report testRun (Started test) s)
      | Some res \<Rightarrow>
          (case res_state res of
             Fail \<Rightarrow>
               (if isSuite task then
                  (case res_errors res of
                     None \<Rightarrow> (None, s)
                   | Some errs \<Rightarrow>
                       (let errors = map (\<lambda>err. plainMessage (stackOrMessage err)) errs;
                            s1 = s\<lparr>itemError := (itemError s)
                                   (test \<mapsto> join [CHR 0x0A] (map msg_text errors))\<rparr>
                        in (None, report testRun (Errored test errors (res_duration res)) s1)))
                else
                  (case mapE (\<lambda>err. testMessageForTestError h test (Some err))
                          (case res_errors res of None \<Rightarrow> [] | Some errs \<Rightarrow> errs) of
                     Inl e \<Rightarrow> (Some e, s)
                   | Inr errors \<Rightarrow>
                       (None, report testRun (Failed test errors (res_duration res)) s)))
           | Pass \<Rightarrow> (None, report testRun (Passed test (res_duration res)) s)
           | Todo \<Rightarrow> (None, report testRun (Skipped test) s)
           | Skip \<Rightarrow> (None, report testRun (Skipped test) s)
           | Only \<Rightarrow> (None, report testRun (Started test) s)
           | Run \<Rightarrow> (None, report testRun (Started test) s)
           | Unknown st \<Rightarrow>
               (None, logEntry (UnknownTestResult (item_label test) (Unknown st)) s)))"

section \<open>Run registry\<close>

definition getTestRunByData :: "runner \<Rightarrow> test_data \<Rightarrow> nat option" where
  "getTestRunByData s d =
     (case d of
        TestFolder \<Rightarrow> None
      | TestFile filepath \<Rightarrow> testRunsByFile s filepath
      | TestCase filepath pat \<Rightarrow> testRunsByFile s filepath)"

fun isFileIncluded :: "string \<Rightarrow> test_item list \<Rightarrow> bool" where
  "isFileIncluded file [] = False"
| "isFileIncluded file (TestItem i l u d cs # rest) =
     (case d of
        TestFile filepath \<Rightarrow>
          (if filepath = file then True else isFileIncluded file rest)
      | TestFolder \<Rightarrow>
          (if isFileIncluded file cs then True else isFileIncluded file rest)
      | TestCase filepath pat \<Rightarrow>
          (if filepath = file then True else isFileIncluded file rest))"

text \<open>\<open>getFiles\<close> on the children of a folder item.\<close>

fun getFiles :: "test_item list \<Rightarrow> string list" where
  "getFiles [] = []"
| "getFiles (TestItem i l u d cs # rest) =
     (case d of
        TestFile filepath \<Rightarrow> filepath # getFiles rest
      | TestFolder \<Rightarrow> getFiles cs @ getFiles rest
      | TestCase filepath pat \<Rightarrow> getFiles rest)"

definition getTestFilesInFolder :: "tree \<Rightarrow> string \<Rightarrow> string list" where
  "getTestFilesInFolder tr path = getFiles (item_children (getOrCreateFolderTestItem tr path))"

text \<open>\<open>request.include?.length\<close>, which is falsy for an absent and for an empty list.\<close>

definition includeLength :: "request \<Rightarrow> nat" where
  "includeLength r = (case req_include r of None \<Rightarrow> 0 | Some inc \<Rightarrow> length inc)"

definition includeOrEmpty :: "request \<Rightarrow> test_item list" where
  "includeOrEmpty r = (case req_include r of None \<Rightarrow> [] | Some inc \<Rightarrow> inc)"

text \<open>The loop of \<open>createContinuousRequest\<close> over the set of continuous requests.\<close>

fun mergeRequests :: "request list \<Rightarrow> test_item list \<Rightarrow> request option \<Rightarrow> request" where
  "mergeRequests [] inc primaryRequest =
     \<lparr>req_origin = Synthesized, req_include = Some inc,
      req_profile = (case primaryRequest of None \<Rightarrow> None | Some p \<Rightarrow> req_profile p),
      req_continuous = True\<rparr>"
| "mergeRequests (request # requests) inc primaryRequest =
     (if includeLength request = 0 then request
      else mergeRequests requests (inc @ includeOrEmpty request)
             (if primaryRequest = None then Some request else primaryRequest))"

definition createContinuousRequest :: "runner \<Rightarrow> request option" where
  "createContinuousRequest s =
     (if length (continuousRequests s) = 0 then None
      else Some (mergeRequests (continuousRequests s) [] None))"

text \<open>\<open>enqueue\<close>: the item, then its descendants.\<close>

fun enqueue :: "test_item \<Rightarrow> report list" where
  "enqueue (TestItem i l u d cs) = Enqueued (TestItem i l u d cs) # concat (map enqueue cs)"

definition endsWithSlash :: "string \<Rightarrow> bool" where
  "endsWithSlash file = (file \<noteq> [] \<and> last file = CHR ''/'')"

text \<open>The part of the loop body of \<open>startTestRun\<close> that creates and registers a run.\<close>

definition createAndRegister :: "host \<Rightarrow> tree \<Rightarrow> request \<Rightarrow> string \<Rightarrow> runner \<Rightarrow> runner" where
  "createAndRegister h tr request file s =
     (let base = basename h file;
          dir = basename h (dirname h file);
          name = dir @ path_sep (host_platform h) @ base;
          run = length (runs s);
          s1 = s\<lparr>runs := runs s @ [\<lparr>run_request = request, run_name = name, run_file = file\<rparr>]\<rparr>;
          testItems = getFileTestItems tr file;
          s2 = s1\<lparr>reports := reports s1 @ map (Pair run) (concat (map enqueue testItems))\<rparr>
      in s2\<lparr>testRunsByFile := (testRunsByFile s2)(file \<mapsto> run)\<rparr>)"

text \<open>
  The loop of \<open>startTestRun\<close> for a resolved request. A folder marker makes the function
  call itself on the files of the folder; \<open>fuel\<close> bounds the depth of these calls, and
  \<open>None\<close> means that the bound was reached.
\<close>

fun startFiles ::
    "nat \<Rightarrow> host \<Rightarrow> tree \<Rightarrow> request \<Rightarrow> string list \<Rightarrow> runner \<Rightarrow> runner option" where
  "startFiles fuel h tr request [] s = Some s"
| "startFiles fuel h tr request (file # files) s =
     (if endsWithSlash file then
        (case fuel of
           0 \<Rightarrow> None
         | Suc fuel' \<Rightarrow>
             (case startFiles fuel' h tr request (getTestFilesInFolder tr file) s of
                None \<Rightarrow> None
              | Some s' \<Rightarrow> startFiles fuel h tr request files s'))
      else if (case req_include request of
                 None \<Rightarrow> False
               | Some inc \<Rightarrow> \<not> isFileIncluded file inc)
        then startFiles fuel h tr request files s
      else if testRunsByFile s file \<noteq> None then startFiles fuel h tr request files s
      else startFiles fuel h tr request files (createAndRegister h tr request file s))"

definition effectiveRequest :: "request option \<Rightarrow> runner \<Rightarrow> request option" where
  "effectiveRequest primaryRequest s =
     (case primaryRequest of
        Some r \<Rightarrow> Some r
      | None \<Rightarrow>
          (case simpleTestRunRequest s of
             Some r \<Rightarrow> Some r
           | None \<Rightarrow> createContinuousRequest s))"

definition startTestRun ::
    "nat \<Rightarrow> host \<Rightarrow> tree \<Rightarrow> string list \<Rightarrow> request option \<Rightarrow> runner \<Rightarrow> runner option" where
  "startTestRun fuel h tr files primaryRequest s =
     (case effectiveRequest primaryRequest s of
        None \<Rightarrow> Some s
      | Some request \<Rightarrow> startFiles fuel h tr request files s)"

text \<open>
  \<open>endTestRun\<close> is an \<open>async\<close> function that nobody awaits: reading the data of a run
  that was never registered rejects its promise and changes nothing.
\<close>

definition endTestRun :: "nat \<Rightarrow> runner \<Rightarrow> runner" where
  "endTestRun run s =
     (if run < length (runs s)
      then report run RunEnd
             (s\<lparr>testRunsByFile := (testRunsByFile s)(run_file (runs s ! run) := None)\<rparr>)
      else s)"

section \<open>Run orchestrator: event handlers\<close>

text \<open>
  \<open>forEach\<close> with a callback that may throw: the exception leaves the loop with the
  state reached so far.
\<close>

fun forEachE :: "('a \<Rightarrow> runner \<Rightarrow> error option \<times> runner) \<Rightarrow> 'a list \<Rightarrow> runner
                  \<Rightarrow> error option \<times> runner" where
  "forEachE f [] s = (None, s)"
| "forEachE f (x # xs) s =
     (case f x s of
        (Some e, s') \<Rightarrow> (Some e, s')
      | (None, s') \<Rightarrow> forEachE f xs s')"

definition onWatcherRerun ::
    "nat \<Rightarrow> host \<Rightarrow> tree \<Rightarrow> string list \<Rightarrow> bool \<Rightarrow> runner \<Rightarrow> runner option" where
  "onWatcherRerun fuel h tr files collecting s =
     (if \<not> collecting then startTestRun fuel h tr files None s else Some s)"

text \<open>The callback of \<open>onTaskUpdate\<close> for one pack \<open>[testId, result]\<close>.\<close>

definition taskUpdateStep ::
    "host \<Rightarrow> tree \<Rightarrow> string \<times> task_result option \<Rightarrow> runner \<Rightarrow> error option \<times> runner" where
  "taskUpdateStep h tr pack s =
     (case pack of
        (testId, result) \<Rightarrow>
          (case getTestDataByTaskId tr testId of
             None \<Rightarrow> (None, logEntry (CannotFindTask testId) s)
           | Some test \<Rightarrow>
               (case getTestRunByData s (item_data test) of
                  None \<Rightarrow> (None, s)
                | Some testRun \<Rightarrow> markResult h testRun test result None s)))"

definition onTaskUpdate ::
    "host \<Rightarrow> tree \<Rightarrow> (string \<times> task_result option) list \<Rightarrow> runner \<Rightarrow> error option \<times> runner" where
  "onTaskUpdate h tr packs s = forEachE (taskUpdateStep h tr) packs s"

text \<open>The callback that \<open>onCollected\<close> passes to \<open>forEachTask\<close>, with the lookup of the latter.\<close>

definition collectedStep :: "host \<Rightarrow> tree \<Rightarrow> task \<Rightarrow> runner \<Rightarrow> error option \<times> runner" where
  "collectedStep h tr task s =
     (case getTestDataByTask tr task of
        None \<Rightarrow> (None, logEntry (TestDataNotFound (task_name task)) s)
      | Some test \<Rightarrow>
          (case getTestRunByData s (item_data test) of
             None \<Rightarrow> (None, s)
           | Some testRun \<Rightarrow>
               (if task_mode task = ModeSkip \<or> task_mode task = ModeTodo
                then (None, report testRun (Skipped test) s)
                else markResult h testRun test (task_result task) (Some task) s)))"

text \<open>The tree after \<open>collectFile\<close> was called for every file of a collected event.\<close>

definition collectFiles :: "host \<Rightarrow> tree \<Rightarrow> task list \<Rightarrow> tree" where
  "collectFiles h tr files = foldl (collectFile h) tr files"

definition onCollected ::
    "host \<Rightarrow> tree \<Rightarrow> task list option \<Rightarrow> bool \<Rightarrow> runner \<Rightarrow> error option \<times> runner" where
  "onCollected h tr files collecting s =
     (case files of
        None \<Rightarrow> (None, s)
      | Some fs \<Rightarrow>
          (let tr' = collectFiles h tr fs
           in if collecting then (None, s)
              else forEachE (collectedStep h tr') (getTasks h fs) s))"

text \<open>
  \<open>reportCoverage\<close>. The callbacks given to \<open>Promise.all\<close> are taken in list order; the
  first failure is the one reported.
\<close>

fun applyCoverageAll :: "host \<Rightarrow> tree \<Rightarrow> string \<Rightarrow> task list \<Rightarrow> runner \<Rightarrow> error option \<times> runner" where
  "applyCoverageAll h tr dir [] s = (None, s)"
| "applyCoverageAll h tr dir (file # files) s =
     (case (case getTestDataByTask tr file of
              None \<Rightarrow> None
            | Some d \<Rightarrow> getTestRunByData s (item_data d)) of
        None \<Rightarrow> applyCoverageAll h tr dir files s
      | Some testRun \<Rightarrow>
          (case applyCoverage h testRun dir of
             None \<Rightarrow> applyCoverageAll h tr dir files (report testRun (AddCoverage dir) s)
           | Some e \<Rightarrow>
               (case applyCoverageAll h tr dir files s of (e', s') \<Rightarrow> (Some e, s'))))"

definition reportCoverage :: "host \<Rightarrow> tree \<Rightarrow> task list \<Rightarrow> runner \<Rightarrow> error option \<times> runner" where
  "reportCoverage h tr files s =
     (if \<not> hasFileCoverage h then (None, s)
      else (case getCoverageConfig h of
              Inl e \<Rightarrow> (Some e, s)
            | Inr (enabled, reportsDirectory) \<Rightarrow>
                (if \<not> enabled then (None, s)
                 else (case waitUntilExists h (join_path h reportsDirectory ''coverage-final.json'') of
                         Some e \<Rightarrow> (Some e, s)
                       | None \<Rightarrow> applyCoverageAll h tr reportsDirectory files s))))"

text \<open>The callback of the \<open>forEach\<close> in the handler of \<open>onFinished\<close>.\<close>

definition finishedStep :: "host \<Rightarrow> tree \<Rightarrow> task \<Rightarrow> runner \<Rightarrow> error option \<times> runner" where
  "finishedStep h tr file s =
     (case getTestDataByTask tr file of
        None \<Rightarrow> (None, s)
      | Some d \<Rightarrow>
          (case getTestRunByData s (item_data d) of
             None \<Rightarrow> (None, s)
           | Some testRun \<Rightarrow>
               (case markResult h testRun d (task_result file) (Some file) s of
                  (Some e, s') \<Rightarrow> (Some e, s')
                | (None, s') \<Rightarrow> (None, endTestRun testRun s'))))"

definition onFinished ::
    "host \<Rightarrow> tree \<Rightarrow> task list option \<Rightarrow> runner \<Rightarrow> error option \<times> runner" where
  "onFinished h tr filesArg s =
     (let files = (case filesArg of None \<Rightarrow> [] | Some fs \<Rightarrow> fs);
          s1 = (case reportCoverage h tr files s of
                  (None, s') \<Rightarrow> s'
                | (Some err, s') \<Rightarrow>
                    s'\<lparr>shownErrors := shownErrors s' @ [(''Failed to report coverage.'', err)]\<rparr>)
      in forEachE (finishedStep h tr) files s1)"

text \<open>
  \<open>content.replace(/(?<!\r)\n/g, '\r\n')\<close>: a line feed is replaced unless the character
  before it in \<open>content\<close> is a carriage return. \<open>afterCR\<close> tells whether the character
  before the rest of the string is one.
\<close>

definition CR :: char where
  "CR = CHR 0x0D"

definition LF :: char where
  "LF = CHR 0x0A"

fun replaceBareLF :: "bool \<Rightarrow> string \<Rightarrow> string" where
  "replaceBareLF afterCR [] = []"
| "replaceBareLF afterCR (c # cs) =
     (if c = LF \<and> \<not> afterCR then CR # LF # replaceBareLF False cs
      else c # replaceBareLF (c = CR) cs)"

definition normalizeLineEndings :: "string \<Rightarrow> string" where
  "normalizeLineEndings content = replaceBareLF False content"

definition onConsoleLog :: "tree \<Rightarrow> string \<Rightarrow> string option \<Rightarrow> runner \<Rightarrow> runner" where
  "onConsoleLog tr content taskId s =
     (let test = (case taskId of
                    None \<Rightarrow> None
                  | Some tid \<Rightarrow> if tid = [] then None else getTestDataByTaskId tr tid);
          testRun = (case test of None \<Rightarrow> None | Some d \<Rightarrow> getTestRunByData s (item_data d))
      in (case testRun of
            Some run \<Rightarrow> report run (AppendOutput (normalizeLineEndings content) test) s
          | None \<Rightarrow> logEntry (ConsoleOutput content) s))"

section \<open>Run orchestrator: entry points\<close>

definition invoke :: "api \<Rightarrow> api_call \<Rightarrow> runner \<Rightarrow> error option \<times> runner" where
  "invoke a call s = a call (s\<lparr>apiCalls := apiCalls s @ [call]\<rparr>)"

text \<open>A call that is not awaited is only recorded.\<close>

definition fire :: "api_call \<Rightarrow> runner \<Rightarrow> runner" where
  "fire call s = s\<lparr>apiCalls := apiCalls s @ [call]\<rparr>"

text \<open>\<open>Set.prototype.add\<close> and \<open>delete\<close> on the insertion-ordered set of requests.\<close>

definition setAdd :: "request \<Rightarrow> request list \<Rightarrow> request list" where
  "setAdd r rs = (if r \<in> set rs then rs else rs @ [r])"

definition setDelete :: "request \<Rightarrow> request list \<Rightarrow> request list" where
  "setDelete r rs = filter (\<lambda>x. x \<noteq> r) rs"

definition watchContinuousTests :: "host \<Rightarrow> api \<Rightarrow> request \<Rightarrow> runner \<Rightarrow> error option \<times> runner" where
  "watchContinuousTests h a request s =
     (let s1 = s\<lparr>continuousRequests := setAdd request (continuousRequests s)\<rparr>
      in if includeLength request = 0 then invoke a (WatchTests None) s1
         else (let inc = concat (map includeOrEmpty (continuousRequests s1))
               in (case getTestFiles h inc of
                     Inl e \<Rightarrow> (Some e, s1)
                   | Inr files \<Rightarrow>
                       (let testNamePatern = formatTestPattern inc
                        in invoke a (WatchTests (Some (files, testNamePatern))) s1))))"

text \<open>The cancellation handler that \<open>watchContinuousTests\<close> registers for its request.\<close>

definition cancelContinuous :: "request \<Rightarrow> runner \<Rightarrow> runner" where
  "cancelContinuous request s =
     (let s1 = s\<lparr>continuousRequests := setDelete request (continuousRequests s)\<rparr>
      in if length (continuousRequests s1) = 0 then fire UnwatchTests s1 else s1)"

text \<open>The cancellation handler that \<open>runTests\<close> registers.\<close>

definition cancelSimple :: "runner \<Rightarrow> runner" where
  "cancelSimple s = fire CancelRun (s\<lparr>simpleTestRunRequest := None\<rparr>)"

text \<open>
  The end of \<open>runTests\<close>: the awaited \<open>runFiles\<close> call, and the statement after it, which
  is reached only when the call does not throw.
\<close>

definition runFilesThenClear :: "api \<Rightarrow> api_call \<Rightarrow> runner \<Rightarrow> error option \<times> runner" where
  "runFilesThenClear a call s =
     (case invoke a call s of
        (Some e, s') \<Rightarrow> (Some e, s')
      | (None, s') \<Rightarrow> (None, s'\<lparr>simpleTestRunRequest := None\<rparr>))"

definition runTests :: "host \<Rightarrow> api \<Rightarrow> request \<Rightarrow> runner \<Rightarrow> error option \<times> runner" where
  "runTests h a request s =
     (if req_continuous request then watchContinuousTests h a request s
      else (let s1 = s\<lparr>simpleTestRunRequest := Some request\<rparr>;
                tests = includeOrEmpty request
            in if length tests = 0
               then runFilesThenClear a (RunFiles None)
                      (logEntry (RunningAllTests (basename h (workspaceFolder h))) s1)
               else (let testNamePatern = formatTestPattern tests
                     in (case getTestFiles h tests of
                           Inl e \<Rightarrow> (Some e, s1)
                         | Inr files \<Rightarrow>
                             runFilesThenClear a (RunFiles (Some (files, testNamePatern)))
                               (logEntry
                                  (case testNamePatern of
                                     Some pat \<Rightarrow>
                                       (if pat = [] then RunningFilesInfo (length files) files
                                        else RunningWithPattern (length files) pat)
                                   | None \<Rightarrow> RunningFilesInfo (length files) files) s1)))))"

definition runCoverage :: "host \<Rightarrow> api \<Rightarrow> request \<Rightarrow> runner \<Rightarrow> error option \<times> runner" where
  "runCoverage h a request s =
     (case invoke a EnableCoverage s of
        (Some err, s') \<Rightarrow>
          (None, s'\<lparr>shownErrors := shownErrors s' @ [(''Failed to enable coverage.'', err)]\<rparr>)
      | (None, s') \<Rightarrow> runTests h a request s')"

definition dispose :: "runner \<Rightarrow> runner" where
  "dispose s =
     fire CancelRun
       ((fire ClearListeners s)\<lparr>testRunsByFile := Map.empty, simpleTestRunRequest := None,
                                continuousRequests := []\<rparr>)"

section \<open>Notions used to state the properties\<close>





text \<open>A call of \<open>failed\<close> on a run.\<close>

definition isFailed :: "report \<Rightarrow> bool" where
  "isFailed call = (case call of Failed test messages duration \<Rightarrow> True | _ \<Rightarrow> False)"

text \<open>Position \<open>i\<close> of \<open>content\<close> holds a line feed that no carriage return precedes.\<close>

definition bareLF :: "string \<Rightarrow> nat \<Rightarrow> bool" where
  "bareLF content i = (content ! i = LF \<and> (i = 0 \<or> content ! (i - 1) \<noteq> CR))"

text \<open>The same for a whole string, read from the left.\<close>

fun noBareLF :: "bool \<Rightarrow> string \<Rightarrow> bool" where
  "noBareLF afterCR [] = True"
| "noBareLF afterCR (c # cs) = ((c = LF \<longrightarrow> afterCR) \<and> noBareLF (c = CR) cs)"

text \<open>The inclusion filter of a request reaches a file (no filter reaches every file).\<close>

definition reaches :: "request \<Rightarrow> string \<Rightarrow> bool" where
  "reaches request path =
     (case req_include request of None \<Rightarrow> True | Some inc \<Rightarrow> isFileIncluded path inc)"

text \<open>\<open>end\<close> was called on a run.\<close>

definition ended :: "runner \<Rightarrow> nat \<Rightarrow> bool" where
  "ended s run = ((run, RunEnd) \<in> set (reports s))"

text \<open>Every run that has not ended is the run registered for its file.\<close>

definition activeRunsRegistered :: "runner \<Rightarrow> bool" where
  "activeRunsRegistered s =
     (\<forall>run < length (runs s). \<not> ended s run \<longrightarrow>
        testRunsByFile s (run_file (runs s ! run)) = Some run)"

text \<open>No two runs that have not ended belong to the same file.\<close>

definition oneActiveRunPerFile :: "runner \<Rightarrow> bool" where
  "oneActiveRunPerFile s =
     (\<forall>r1 < length (runs s). \<forall>r2 < length (runs s).
        \<not> ended s r1 \<and> \<not> ended s r2 \<and> run_file (runs s ! r1) = run_file (runs s ! r2)
        \<longrightarrow> r1 = r2)"

text \<open>The file path that owns a piece of test data; a folder has none.\<close>

definition ownerPath :: "test_data \<Rightarrow> string option" where
  "ownerPath d =
     (case d of TestFolder \<Rightarrow> None | TestFile filepath \<Rightarrow> Some filepath
      | TestCase filepath pat \<Rightarrow> Some filepath)"

text \<open>Every entry of the registry names a created run that was registered for that path.\<close>

definition wfRegistry :: "runner \<Rightarrow> bool" where
  "wfRegistry s =
     (\<forall>path run. testRunsByFile s path = Some run \<longrightarrow>
        run < length (runs s) \<and> run_file (runs s ! run) = path)"

text \<open>The calls made on one run, in order.\<close>

definition reportsOf :: "runner \<Rightarrow> nat \<Rightarrow> report list" where
  "reportsOf s run = map snd (filter (\<lambda>rc. fst rc = run) (reports s))"

text \<open>What a step of a handler keeps for the file \<open>path\<close>: its entry in the registry
  and the calls made on its run.\<close>

definition keepsFile :: "string \<Rightarrow> runner \<Rightarrow> runner \<Rightarrow> bool" where
  "keepsFile path s s' =
     (wfRegistry s' \<and> runs s' = runs s
      \<and> testRunsByFile s' path = testRunsByFile s path
      \<and> (\<forall>run. testRunsByFile s path = Some run \<longrightarrow> reportsOf s' run = reportsOf s run))"

section \<open>Sample inputs\<close>

definition sampleHost :: host where
  "sampleHost =
     \<lparr>host_platform = Posix, stripAnsi = (\<lambda>t. t), normalize_path = (\<lambda>p. p),
      basename = (\<lambda>p. p), dirname = (\<lambda>p. p), join_path = (\<lambda>d f. d @ ''/'' @ f),
      workspaceFolder = ''/p'', getTasks = (\<lambda>ts. ts), collectFile = (\<lambda>tr f. tr),
      hasFileCoverage = False, getCoverageConfig = Inr (False, ''/p/coverage''),
      waitUntilExists = (\<lambda>p. None), applyCoverage = (\<lambda>r d. None)\<rparr>"

definition sampleFile :: test_item where
  "sampleFile = TestItem ''a'' ''a.test.ts'' (Some ''/p/a.test.ts'') (TestFile ''/p/a.test.ts'') []"

definition sampleCaseAdds :: test_item where
  "sampleCaseAdds =
     TestItem ''a1'' ''adds numbers'' (Some ''/p/a.test.ts'')
       (TestCase ''/p/a.test.ts'' ''adds numbers'') []"

definition sampleCaseSubtracts :: test_item where
  "sampleCaseSubtracts =
     TestItem ''a2'' ''subtracts numbers'' (Some ''/p/a.test.ts'')
       (TestCase ''/p/a.test.ts'' ''subtracts numbers'') []"

definition sampleTree :: tree where
  "sampleTree =
     \<lparr>getTestDataByTaskId = (\<lambda>i. if i = ''t1'' then Some sampleFile else None),
      getTestDataByTask = (\<lambda>t. if task_id t = ''t1'' then Some sampleFile else None),
      getFileTestItems = (\<lambda>p. if p = ''/p/a.test.ts'' then [sampleFile] else []),
      getOrCreateFolderTestItem = (\<lambda>p. TestItem p p (Some p) TestFolder [])\<rparr>"

text \<open>The state of a runner that has just been constructed.\<close>

definition initialRunner :: runner where
  "initialRunner =
     \<lparr>continuousRequests = [], simpleTestRunRequest = None, testRunsByFile = Map.empty,
      runs = [], reports = [], itemError = Map.empty, apiCalls = [], logs = [],
      shownErrors = []\<rparr>"

definition sampleRequest :: request where
  "sampleRequest = \<lparr>req_origin = Issued 1, req_include = None, req_profile = None,
                    req_continuous = False\<rparr>"

definition sampleIncludeRequest :: request where
  "sampleIncludeRequest = \<lparr>req_origin = Issued 4, req_include = Some [sampleFile],
                           req_profile = None, req_continuous = False\<rparr>"

definition sampleWatchAll :: request where
  "sampleWatchAll = \<lparr>req_origin = Issued 2, req_include = None, req_profile = None,
                     req_continuous = True\<rparr>"

definition sampleWatchFile :: request where
  "sampleWatchFile = \<lparr>req_origin = Issued 3, req_include = Some [sampleFile],
                      req_profile = None, req_continuous = True\<rparr>"

text \<open>A runner with one run, registered for the sample file.\<close>

definition sampleRunning :: runner where
  "sampleRunning =
     initialRunner\<lparr>testRunsByFile := [''/p/a.test.ts'' \<mapsto> 0],
                   runs := [\<lparr>run_request = sampleRequest, run_name = ''p/a.test.ts'',
                             run_file = ''/p/a.test.ts''\<rparr>]\<rparr>"

definition sampleTwoRuns :: runner where
  "sampleTwoRuns =
     initialRunner\<lparr>testRunsByFile := [''/p/a.test.ts'' \<mapsto> 0, ''/p/b.test.ts'' \<mapsto> 1],
                   runs := [\<lparr>run_request = sampleRequest, run_name = ''p/a.test.ts'',
                             run_file = ''/p/a.test.ts''\<rparr>,
                            \<lparr>run_request = sampleRequest, run_name = ''p/b.test.ts'',
                             run_file = ''/p/b.test.ts''\<rparr>]\<rparr>"

definition sampleStacks :: "parsed_stack list" where
  "sampleStacks =
     [\<lparr>stack_file = ''/p/helper.ts'', stack_line = Number 4, stack_column = Number 2\<rparr>,
      \<lparr>stack_file = ''/p/a.test.ts'', stack_line = NaN, stack_column = Number 3\<rparr>,
      \<lparr>stack_file = ''/p/a.test.ts'', stack_line = Number 7, stack_column = Number 3\<rparr>,
      \<lparr>stack_file = ''/p/a.test.ts'', stack_line = Number 9, stack_column = Number 1\<rparr>]"

definition sampleError :: error_with_diff where
  "sampleError =
     \<lparr>err_message = ''expected 1 to be 2'', err_stack = None, err_actual = JNumber 1,
      err_expected = JNumber 2, err_stacks = Some sampleStacks\<rparr>"

definition sampleSuiteFail :: task where
  "sampleSuiteFail =
     \<lparr>task_id = ''t1'', task_name = ''a.test.ts'', task_type = Suite, task_mode = ModeRun,
      task_result = Some \<lparr>res_state = Fail, res_errors = None, res_duration = None\<rparr>,
      task_filepath = ''/p/a.test.ts''\<rparr>"

definition sampleSuiteFailErrors :: task where
  "sampleSuiteFailErrors =
     sampleSuiteFail\<lparr>task_result :=
       Some \<lparr>res_state = Fail, res_errors = Some [sampleError], res_duration = Some 5\<rparr>\<rparr>"

definition sampleFilePass :: task where
  "sampleFilePass =
     \<lparr>task_id = ''t1'', task_name = ''a.test.ts'', task_type = Suite, task_mode = ModeRun,
      task_result = Some \<lparr>res_state = Pass, res_errors = None, res_duration = Some 12\<rparr>,
      task_filepath = ''/p/a.test.ts''\<rparr>"

definition sampleFileUnknown :: task where
  "sampleFileUnknown = sampleFilePass\<lparr>task_id := ''t2''\<rparr>"

definition sampleOtherUnknown :: task where
  "sampleOtherUnknown = sampleFilePass\<lparr>task_id := ''t3'', task_filepath := ''/p/b.test.ts''\<rparr>"

definition sampleApi :: api where
  "sampleApi = (\<lambda>call s. (None, s))"

definition sampleThrowingApi :: api where
  "sampleThrowingApi = (\<lambda>call s. (Some (ApiError ''connection closed''), s))"






section \<open>Properties\<close>

subsection \<open>Pattern and file resolver\<close>

lemma pushPatterns_filter:
  "pushPatterns tests acc =
     acc @ map (\<lambda>t. getTestNamePattern (item_data t))
             (filter (\<lambda>t. hasTestNamePattern (item_data t)) tests)"
  by (induction tests arbitrary: acc) auto

text \<open>
  C6: the resolved name pattern is the name patterns of exactly the selected items that
  carry one, in selection order, joined by \<open>|\<close>; it is absent when no selected item
  carries one.
\<close>

theorem formatTestPattern_spec:
  "formatTestPattern tests =
     (if filter (\<lambda>t. hasTestNamePattern (item_data t)) tests = [] then None
      else Some (join ''|'' (map (\<lambda>t. getTestNamePattern (item_data t))
                                (filter (\<lambda>t. hasTestNamePattern (item_data t)) tests))))"
  by (simp add: formatTestPattern_def pushPatterns_filter)

text \<open>
  A file and two cases selected: the patterns of the two cases; a file alone: no pattern.
\<close>

theorem formatTestPattern_spec_witness:
  "formatTestPattern [sampleFile, sampleCaseAdds, sampleCaseSubtracts]
     = Some ''adds numbers|subtracts numbers''
   \<and> formatTestPattern [sampleFile] = None"
  using formatTestPattern_spec[of "[sampleFile, sampleCaseAdds, sampleCaseSubtracts]"]
        formatTestPattern_spec[of "[sampleFile]"]
  by (simp add: sampleFile_def sampleCaseAdds_def sampleCaseSubtracts_def
        hasTestNamePattern_def getTestNamePattern_def)

subsection \<open>Result mapper\<close>









text \<open>
  Handed the suite-typed task, the mapper does nothing for a \<open>fail\<close> result without an
  errors list: no call on the run, and the error text of the item stays as it is.
\<close>

lemma markResult_suite_fail_without_errors:
  assumes "task_type task = Suite" and "res_state res = Fail" and "res_errors res = None"
  shows "markResult h testRun test (Some res) (Some task) s = (None, s)"
  using assms by (simp add: markResult_def isSuite_def)

text \<open>
  The handler of task updates hands no task to the mapper, so it maps every result as the
  result of a leaf: a \<open>fail\<close> result without an errors list is reported as failed, with
  no messages, whatever the type of the task.
\<close>

lemma taskUpdateStep_fail_without_errors:
  assumes "getTestDataByTaskId tr testId = Some test"
      and "getTestRunByData s (item_data test) = Some testRun"
      and "res_state res = Fail" and "res_errors res = None"
  shows "taskUpdateStep h tr (testId, Some res) s
           = (None, report testRun (Failed test [] (res_duration res)) s)"
  using assms by (simp add: taskUpdateStep_def markResult_def isSuite_def)

text \<open>
  C9: the code at a task update for the sample suite-typed task, whose \<open>fail\<close> result
  has no errors list. The collected and finished handlers hand the task to the mapper,
  which then reports nothing; the handler of task updates does not, and \<open>failed\<close> is
  called on the run of the item.
\<close>

theorem onTaskUpdate_suite_fail_without_errors:
  "task_id sampleSuiteFail = ''t1'' \<and> task_type sampleSuiteFail = Suite
   \<and> task_result sampleSuiteFail
        = Some \<lparr>res_state = Fail, res_errors = None, res_duration = None\<rparr>
   \<and> getTestDataByTaskId sampleTree ''t1'' = Some sampleFile
   \<and> onTaskUpdate sampleHost sampleTree [(''t1'', task_result sampleSuiteFail)] sampleRunning
        = (None, report 0 (Failed sampleFile [] None) sampleRunning)
   \<and> markResult sampleHost 0 sampleFile (task_result sampleSuiteFail) (Some sampleSuiteFail)
        sampleRunning = (None, sampleRunning)"
  by (simp add: onTaskUpdate_def taskUpdateStep_def markResult_def isSuite_def
        sampleSuiteFail_def sampleTree_def getTestRunByData_def
        sampleRunning_def initialRunner_def sampleFile_def)

lemma markResult_suite_fail:
  assumes "task_type task = Suite" and "res_state res = Fail"
  shows "markResult h testRun test (Some res) (Some task) s =
           (None, case res_errors res of
                    None \<Rightarrow> s
                  | Some errs \<Rightarrow>
                      report testRun
                        (Errored test (map (\<lambda>err. plainMessage (stackOrMessage err)) errs)
                           (res_duration res))
                        (s\<lparr>itemError := (itemError s)
                             (test \<mapsto> join [CHR 0x0A] (map stackOrMessage errs))\<rparr>))"
  using assms
  by (simp add: markResult_def isSuite_def Let_def plainMessage_def o_def split: option.splits)

text \<open>
  The callback of the collected handler for a suite-typed task with a \<open>fail\<close> result.
\<close>

lemma collectedStep_suite_fail:
  assumes "getTestDataByTask tr task = Some test"
      and "getTestRunByData s (item_data test) = Some testRun"
      and "task_mode task \<noteq> ModeSkip" and "task_mode task \<noteq> ModeTodo"
      and "task_type task = Suite"
      and "task_result task = Some res" and "res_state res = Fail"
  shows "collectedStep h tr task s =
           (None, case res_errors res of
                    None \<Rightarrow> s
                  | Some errs \<Rightarrow>
                      report testRun
                        (Errored test (map (\<lambda>err. plainMessage (stackOrMessage err)) errs)
                           (res_duration res))
                        (s\<lparr>itemError := (itemError s)
                             (test \<mapsto> join [CHR 0x0A] (map stackOrMessage errs))\<rparr>))
         \<and> filter (\<lambda>rc. isFailed (snd rc)) (reports (snd (collectedStep h tr task s)))
             = filter (\<lambda>rc. isFailed (snd rc)) (reports s)"
proof -
  have a: "collectedStep h tr task s =
           (None, case res_errors res of
                    None \<Rightarrow> s
                  | Some errs \<Rightarrow>
                      report testRun
                        (Errored test (map (\<lambda>err. plainMessage (stackOrMessage err)) errs)
                           (res_duration res))
                        (s\<lparr>itemError := (itemError s)
                             (test \<mapsto> join [CHR 0x0A] (map stackOrMessage errs))\<rparr>))"
    using assms by (simp add: collectedStep_def markResult_suite_fail)
  show ?thesis
    unfolding a by (simp add: report_def isFailed_def split: option.splits)
qed

lemma forEachE_append:
  "forEachE f (xs @ ys) s =
     (case forEachE f xs s of (Some e, s') \<Rightarrow> (Some e, s') | (None, s') \<Rightarrow> forEachE f ys s')"
  by (induction xs arbitrary: s) (auto split: prod.splits option.splits)

text \<open>
  C1 (as amended): in a collected event that is not in the collecting phase, let the
  handler reach, in state \<open>s1\<close>, a task that is suite-typed, not in skip or todo mode,
  has a \<open>fail\<close> result and resolves, in the tree after the files of the event were
  collected, to an item with a registered run. Then the mapper calls \<open>failed\<close> on no
  item. If the result carries an errors list, the texts of the errors joined by line
  feeds become the error text of the item and \<open>errored\<close> is reported; if the list is
  absent nothing is reported. The handler goes on with the remaining tasks. In the
  collecting phase the handler maps no result at all.
\<close>

theorem onCollected_suite_fail:
  assumes "getTasks h files = before @ task # after"
      and "forEachE (collectedStep h (collectFiles h tr files)) before s = (None, s1)"
      and "getTestDataByTask (collectFiles h tr files) task = Some test"
      and "getTestRunByData s1 (item_data test) = Some testRun"
      and "task_mode task \<noteq> ModeSkip" and "task_mode task \<noteq> ModeTodo"
      and "task_type task = Suite"
      and "task_result task = Some res" and "res_state res = Fail"
  shows "onCollected h tr (Some files) False s =
           forEachE (collectedStep h (collectFiles h tr files)) after
             (case res_errors res of
                None \<Rightarrow> s1
              | Some errs \<Rightarrow>
                  report testRun
                    (Errored test (map (\<lambda>err. plainMessage (stackOrMessage err)) errs)
                       (res_duration res))
                    (s1\<lparr>itemError := (itemError s1)
                          (test \<mapsto> join [CHR 0x0A] (map stackOrMessage errs))\<rparr>))
         \<and> filter (\<lambda>rc. isFailed (snd rc))
              (reports (case res_errors res of
                          None \<Rightarrow> s1
                        | Some errs \<Rightarrow>
                            report testRun
                              (Errored test (map (\<lambda>err. plainMessage (stackOrMessage err)) errs)
                                 (res_duration res))
                              (s1\<lparr>itemError := (itemError s1)
                                    (test \<mapsto> join [CHR 0x0A] (map stackOrMessage errs))\<rparr>)))
             = filter (\<lambda>rc. isFailed (snd rc)) (reports s1)
         \<and> onCollected h tr (Some files) True s = (None, s)"
proof -
  let ?tr = "collectFiles h tr files"
  let ?s2 = "case res_errors res of
                None \<Rightarrow> s1
              | Some errs \<Rightarrow>
                  report testRun
                    (Errored test (map (\<lambda>err. plainMessage (stackOrMessage err)) errs)
                       (res_duration res))
                    (s1\<lparr>itemError := (itemError s1)
                          (test \<mapsto> join [CHR 0x0A] (map stackOrMessage errs))\<rparr>)"
  note step = collectedStep_suite_fail[OF assms(3-9), of h]
  from step have st: "collectedStep h ?tr task s1 = (None, ?s2)"
    by (rule conjunct1)
  from step have nf: "filter (\<lambda>rc. isFailed (snd rc)) (reports ?s2)
                  = filter (\<lambda>rc. isFailed (snd rc)) (reports s1)"
    unfolding st by simp
  have "onCollected h tr (Some files) False s
          = forEachE (collectedStep h ?tr) (before @ task # after) s"
    using assms(1) by (simp add: onCollected_def Let_def)
  also have "\<dots> = forEachE (collectedStep h ?tr) (task # after) s1"
    using assms(2) by (simp add: forEachE_append)
  also have "\<dots> = forEachE (collectedStep h ?tr) after ?s2"
    using st by simp
  finally have a: "onCollected h tr (Some files) False s
                     = forEachE (collectedStep h ?tr) after ?s2" .
  have c: "onCollected h tr (Some files) True s = (None, s)"
    by (simp add: onCollected_def Let_def)
  from a nf c show ?thesis by blast
qed

text \<open>
  An event with the suite result and one error: \<open>errored\<close> is reported and the text
  attached; the same event in the collecting phase changes nothing.
\<close>

theorem onCollected_suite_fail_witness:
  "onCollected sampleHost sampleTree (Some [sampleSuiteFailErrors]) False sampleRunning =
     (None, report 0 (Errored sampleFile [plainMessage ''expected 1 to be 2''] (Some 5))
              (sampleRunning\<lparr>itemError := [sampleFile \<mapsto> ''expected 1 to be 2'']\<rparr>))
   \<and> onCollected sampleHost sampleTree (Some [sampleSuiteFailErrors]) True sampleRunning
       = (None, sampleRunning)"
proof -
  have tr: "collectFiles sampleHost sampleTree [sampleSuiteFailErrors] = sampleTree"
    by (simp add: collectFiles_def sampleHost_def)
  have g: "getTasks sampleHost [sampleSuiteFailErrors] = [] @ sampleSuiteFailErrors # []"
    by (simp add: sampleHost_def)
  have b: "forEachE (collectedStep sampleHost
                       (collectFiles sampleHost sampleTree [sampleSuiteFailErrors])) []
             sampleRunning = (None, sampleRunning)"
    by simp
  have d: "getTestDataByTask (collectFiles sampleHost sampleTree [sampleSuiteFailErrors])
             sampleSuiteFailErrors = Some sampleFile"
    unfolding tr by (simp add: sampleTree_def sampleSuiteFailErrors_def sampleSuiteFail_def)
  have r: "getTestRunByData sampleRunning (item_data sampleFile) = Some 0"
    by (simp add: getTestRunByData_def sampleRunning_def sampleFile_def initialRunner_def)
  have m: "task_mode sampleSuiteFailErrors \<noteq> ModeSkip" "task_mode sampleSuiteFailErrors \<noteq> ModeTodo"
          "task_type sampleSuiteFailErrors = Suite"
    by (simp_all add: sampleSuiteFailErrors_def sampleSuiteFail_def)
  have t: "task_result sampleSuiteFailErrors =
             Some \<lparr>res_state = Fail, res_errors = Some [sampleError], res_duration = Some 5\<rparr>"
    by (simp add: sampleSuiteFailErrors_def)
  have e: "stackOrMessage sampleError = ''expected 1 to be 2''"
    by (simp add: stackOrMessage_def sampleError_def)
  have i: "itemError sampleRunning = Map.empty"
    by (simp add: sampleRunning_def initialRunner_def)
  from onCollected_suite_fail[OF g b d r m t]
  show ?thesis by (simp add: e i)
qed

text \<open>
  A collected event, not in the collecting phase, with a \<open>fail\<close> result for a suite-typed task and no errors list:
  nothing is reported and no error text is attached.
\<close>

theorem onCollected_suite_fail_counterexample:
  "task_type sampleSuiteFail = Suite
   \<and> map_option res_state (task_result sampleSuiteFail) = Some Fail
   \<and> getTestDataByTask sampleTree sampleSuiteFail = Some sampleFile
   \<and> getTestRunByData sampleRunning (item_data sampleFile) = Some 0
   \<and> fst (onCollected sampleHost sampleTree (Some [sampleSuiteFail]) False sampleRunning) = None
   \<and> reports (snd (onCollected sampleHost sampleTree (Some [sampleSuiteFail]) False sampleRunning))
        = []
   \<and> itemError (snd (onCollected sampleHost sampleTree (Some [sampleSuiteFail]) False sampleRunning))
        sampleFile = None"
  by (simp add: onCollected_def collectFiles_def collectedStep_def markResult_def isSuite_def
        sampleSuiteFail_def sampleTree_def sampleHost_def getTestRunByData_def
        sampleRunning_def initialRunner_def sampleFile_def)

subsection \<open>Console output\<close>

lemma concat_map_upt_Suc:
  "concat (map f [0..<Suc n]) = f 0 @ concat (map (\<lambda>i. f (Suc i)) [0..<n])"
proof -
  have "[0..<Suc n] = 0 # map Suc [0..<n]"
    by (simp add: upt_conv_Cons map_Suc_upt del: upt_Suc)
  then show ?thesis
    by (simp add: o_def del: upt_Suc)
qed

lemma replaceBareLF_index:
  "replaceBareLF afterCR content =
     concat (map (\<lambda>i. if content ! i = LF \<and> \<not> (if i = 0 then afterCR else content ! (i - 1) = CR)
                        then [CR, LF] else [content ! i])
                 [0..<length content])"
proof (induction content arbitrary: afterCR)
  case Nil
  then show ?case by simp
next
  case (Cons c cs)
  have tl: "map (\<lambda>i. if (c # cs) ! Suc i = LF
                          \<and> \<not> (if Suc i = 0 then afterCR else (c # cs) ! (Suc i - 1) = CR)
                        then [CR, LF] else [(c # cs) ! Suc i]) [0..<length cs]
           = map (\<lambda>i. if cs ! i = LF \<and> \<not> (if i = 0 then c = CR else cs ! (i - 1) = CR)
                        then [CR, LF] else [cs ! i]) [0..<length cs]"
    by (rule map_cong) (auto simp: nth_Cons')
  have ne: "LF \<noteq> CR" by (simp add: LF_def CR_def)
  show ?case
    unfolding length_Cons concat_map_upt_Suc tl
    using ne by (auto simp add: Cons.IH simp del: upt_Suc cong del: if_weak_cong)
qed

lemma noBareLF_index:
  "noBareLF afterCR s =
     (\<forall>i<length s. s ! i = LF \<longrightarrow> (if i = 0 then afterCR else s ! (i - 1) = CR))"
proof (induction s arbitrary: afterCR)
  case Nil
  then show ?case by simp
next
  case (Cons c cs)
  have "(\<forall>i<length cs. cs ! i = LF \<longrightarrow> (if i = 0 then c = CR else cs ! (i - 1) = CR))
        = (\<forall>i<length cs. (c # cs) ! Suc i = LF \<longrightarrow> (c # cs) ! i = CR)"
    by (auto simp: nth_Cons' split: if_splits)
  then show ?case
    by (simp add: Cons.IH All_less_Suc2)
qed

lemma noBareLF_replaceBareLF: "noBareLF afterCR (replaceBareLF afterCR content)"
  by (induction content arbitrary: afterCR) (auto simp: LF_def CR_def)

lemma replaceBareLF_unchanged: "noBareLF afterCR content \<Longrightarrow> replaceBareLF afterCR content = content"
  by (induction content arbitrary: afterCR) auto

text \<open>
  C8: console output attributed to a tracked run is appended to that run with every line
  feed that no carriage return precedes replaced by carriage return and line feed, every
  other character kept; the result has no such line feed left, and a content without one
  is appended as it is.
\<close>

theorem onConsoleLog_normalizes_line_endings:
  assumes "tid \<noteq> []" and "getTestDataByTaskId tr tid = Some test"
      and "getTestRunByData s (item_data test) = Some run"
  shows "onConsoleLog tr content (Some tid) s =
           report run (AppendOutput (normalizeLineEndings content) (Some test)) s
         \<and> normalizeLineEndings content =
             concat (map (\<lambda>i. if bareLF content i then [CR, LF] else [content ! i])
                         [0..<length content])
         \<and> (\<forall>i<length (normalizeLineEndings content). \<not> bareLF (normalizeLineEndings content) i)
         \<and> ((\<forall>i<length content. \<not> bareLF content i) \<longrightarrow> normalizeLineEndings content = content)"
proof -
  have a: "onConsoleLog tr content (Some tid) s =
           report run (AppendOutput (normalizeLineEndings content) (Some test)) s"
    using assms by (simp add: onConsoleLog_def)
  have b: "normalizeLineEndings content =
             concat (map (\<lambda>i. if bareLF content i then [CR, LF] else [content ! i])
                         [0..<length content])"
    unfolding normalizeLineEndings_def replaceBareLF_index[of False content] bareLF_def
    by (rule arg_cong[where f = concat], rule map_cong) auto
  have pt: "(t ! i = LF \<longrightarrow> (if i = 0 then False else t ! (i - 1) = CR))
            = (\<not> (t ! i = LF \<and> (i = 0 \<or> t ! (i - 1) \<noteq> CR)))" for t :: string and i
    by auto
  have idx: "noBareLF False t = (\<forall>i<length t. \<not> bareLF t i)" for t
    by (simp only: noBareLF_index bareLF_def pt)
  have c: "\<forall>i<length (normalizeLineEndings content). \<not> bareLF (normalizeLineEndings content) i"
    using noBareLF_replaceBareLF[of False content]
    unfolding normalizeLineEndings_def idx .
  have d: "(\<forall>i<length content. \<not> bareLF content i) \<longrightarrow> normalizeLineEndings content = content"
    using replaceBareLF_unchanged[of False content]
    unfolding normalizeLineEndings_def idx by blast
  from a b c d show ?thesis by blast
qed

text \<open>
  A content with one bare line feed and one carriage return and line feed.
\<close>

theorem onConsoleLog_normalizes_line_endings_witness:
  "onConsoleLog sampleTree [CHR ''a'', LF, CHR ''b'', CR, LF] (Some ''t1'') sampleRunning =
     report 0 (AppendOutput [CHR ''a'', CR, LF, CHR ''b'', CR, LF] (Some sampleFile)) sampleRunning
   \<and> normalizeLineEndings [CHR ''a'', LF, CHR ''b'', CR, LF] = [CHR ''a'', CR, LF, CHR ''b'', CR, LF]
   \<and> normalizeLineEndings [CHR ''a'', CR, LF] = [CHR ''a'', CR, LF]"
proof -
  have t: "getTestDataByTaskId sampleTree ''t1'' = Some sampleFile"
    by (simp add: sampleTree_def)
  have r: "getTestRunByData sampleRunning (item_data sampleFile) = Some 0"
    by (simp add: getTestRunByData_def sampleRunning_def sampleFile_def initialRunner_def)
  have n: "normalizeLineEndings [CHR ''a'', LF, CHR ''b'', CR, LF] = [CHR ''a'', CR, LF, CHR ''b'', CR, LF]"
    by (simp add: normalizeLineEndings_def LF_def CR_def)
  have nb: "\<forall>i<length [CHR ''a'', CR, LF]. \<not> bareLF [CHR ''a'', CR, LF] i"
    by (simp add: bareLF_def All_less_Suc2 LF_def CR_def)
  from onConsoleLog_normalizes_line_endings[of "''t1''" sampleTree sampleFile sampleRunning 0
         "[CHR ''a'', LF, CHR ''b'', CR, LF]", OF _ t r]
       onConsoleLog_normalizes_line_endings[of "''t1''" sampleTree sampleFile sampleRunning 0
         "[CHR ''a'', CR, LF]", OF _ t r] nb n
  show ?thesis by simp
qed

subsection \<open>Entry points\<close>

text \<open>
  What a call of \<open>runTests\<close> that is not continuous does around the awaited \<open>runFiles\<close>:
  the marker of the active request is set when the call is made; the statement that
  clears it is reached when the call returns and is not reached when the call throws.
\<close>

lemma runTests_around_call:
  assumes "\<not> req_continuous request"
      and "getTestFiles h (includeOrEmpty request) = Inr files"
  shows "\<exists>s1. simpleTestRunRequest s1 = Some request \<and>
           runTests h a request s =
             (case a (RunFiles (if includeOrEmpty request = [] then None
                                else Some (files, formatTestPattern (includeOrEmpty request)))) s1 of
                (None, s2) \<Rightarrow> (None, s2\<lparr>simpleTestRunRequest := None\<rparr>)
              | (Some e, s2) \<Rightarrow> (Some e, s2))"
proof (cases "includeOrEmpty request = []")
  case True
  let ?s1 = "(logEntry (RunningAllTests (basename h (workspaceFolder h)))
               (s\<lparr>simpleTestRunRequest := Some request\<rparr>))\<lparr>apiCalls := apiCalls s @ [RunFiles None]\<rparr>"
  have "simpleTestRunRequest ?s1 = Some request"
    by (simp add: logEntry_def)
  moreover have "runTests h a request s =
             (case a (RunFiles None) ?s1 of
                (None, s2) \<Rightarrow> (None, s2\<lparr>simpleTestRunRequest := None\<rparr>)
              | (Some e, s2) \<Rightarrow> (Some e, s2))"
    using assms True
    by (simp add: runTests_def runFilesThenClear_def invoke_def logEntry_def
          split: prod.splits option.splits)
  ultimately show ?thesis using True by (intro exI[of _ ?s1]) simp
next
  case False
  let ?call = "RunFiles (Some (files, formatTestPattern (includeOrEmpty request)))"
  let ?entry = "(case formatTestPattern (includeOrEmpty request) of
                   Some pat \<Rightarrow> (if pat = [] then RunningFilesInfo (length files) files
                                else RunningWithPattern (length files) pat)
                 | None \<Rightarrow> RunningFilesInfo (length files) files)"
  let ?s1 = "(logEntry ?entry (s\<lparr>simpleTestRunRequest := Some request\<rparr>))
               \<lparr>apiCalls := apiCalls s @ [?call]\<rparr>"
  have "simpleTestRunRequest ?s1 = Some request"
    by (simp add: logEntry_def)
  moreover have "runTests h a request s =
             (case a ?call ?s1 of
                (None, s2) \<Rightarrow> (None, s2\<lparr>simpleTestRunRequest := None\<rparr>)
              | (Some e, s2) \<Rightarrow> (Some e, s2))"
    using assms False
    by (simp add: runTests_def runFilesThenClear_def invoke_def logEntry_def Let_def
          split: prod.splits option.splits)
  ultimately show ?thesis using False by (intro exI[of _ ?s1]) simp
qed

text \<open>A \<open>runFiles\<close> call that returns: the marker is cleared.\<close>

lemma runTests_clears_marker_on_return:
  "\<not> req_continuous sampleRequest
   \<and> fst (runTests sampleHost sampleApi sampleRequest initialRunner) = None
   \<and> simpleTestRunRequest (snd (runTests sampleHost sampleApi sampleRequest initialRunner)) = None"
  by (simp add: runTests_def runFilesThenClear_def invoke_def logEntry_def includeOrEmpty_def
        sampleRequest_def sampleApi_def initialRunner_def)

text \<open>
  C3: the code at a \<open>runFiles\<close> call that throws. The failure reaches the caller, but
  the marker of the active request is not cleared: it still holds the request, which a
  later run start takes as its request.
\<close>

theorem runTests_throw_leaves_marker:
  "\<not> req_continuous sampleRequest
   \<and> fst (runTests sampleHost sampleThrowingApi sampleRequest initialRunner)
        = Some (ApiError ''connection closed'')
   \<and> simpleTestRunRequest (snd (runTests sampleHost sampleThrowingApi sampleRequest initialRunner))
        = Some sampleRequest
   \<and> effectiveRequest None (snd (runTests sampleHost sampleThrowingApi sampleRequest initialRunner))
        = Some sampleRequest"
  by (simp add: runTests_def runFilesThenClear_def invoke_def logEntry_def includeOrEmpty_def
        effectiveRequest_def sampleRequest_def sampleThrowingApi_def initialRunner_def)

text \<open>
  C2: what the code does when a request with an inclusion is registered after a request
  without one. The watcher is given the files of the newer request, although a
  registration that watches everything is active.
\<close>

theorem watchContinuousTests_newest_request_decides:
  "continuousRequests
     (snd (watchContinuousTests sampleHost sampleApi sampleWatchFile
        (snd (watchContinuousTests sampleHost sampleApi sampleWatchAll initialRunner))))
     = [sampleWatchAll, sampleWatchFile]
   \<and> req_include sampleWatchAll = None
   \<and> apiCalls
     (snd (watchContinuousTests sampleHost sampleApi sampleWatchFile
        (snd (watchContinuousTests sampleHost sampleApi sampleWatchAll initialRunner))))
     = [WatchTests None, WatchTests (Some ([''/p/a.test.ts''], None))]"
  by (simp add: watchContinuousTests_def invoke_def setAdd_def includeLength_def
        includeOrEmpty_def getTestFiles_def testFilePath_def fsPath_def formatTestPattern_def
        hasTestNamePattern_def sampleWatchAll_def sampleWatchFile_def sampleFile_def
        sampleApi_def sampleHost_def initialRunner_def)

subsection \<open>Starting runs\<close>

lemma createAndRegister_fields:
  "testRunsByFile (createAndRegister h tr request file s) = (testRunsByFile s)(file \<mapsto> length (runs s))"
  "simpleTestRunRequest (createAndRegister h tr request file s) = simpleTestRunRequest s"
  "continuousRequests (createAndRegister h tr request file s) = continuousRequests s"
  "runs (createAndRegister h tr request file s) =
     runs s @ [\<lparr>run_request = request,
                run_name = basename h (dirname h file) @ path_sep (host_platform h) @ basename h file,
                run_file = file\<rparr>]"
  "reports (createAndRegister h tr request file s) =
     reports s @ map (Pair (length (runs s))) (concat (map enqueue (getFileTestItems tr file)))"
  by (simp_all add: createAndRegister_def Let_def)

text \<open>
  The loop returns for files that are no folder markers, whatever the fuel; one unit of
  fuel is enough when the folders hold no folder markers.
\<close>

lemma startFiles_plain_total:
  "\<forall>f\<in>set files. \<not> endsWithSlash f \<Longrightarrow> \<exists>s'. startFiles fuel h tr request files s = Some s'"
  by (induction files arbitrary: s) auto

lemma startFiles_folder_total:
  "\<forall>f\<in>set files. endsWithSlash f \<longrightarrow> (\<forall>g\<in>set (getTestFilesInFolder tr f). \<not> endsWithSlash g)
     \<Longrightarrow> \<exists>s'. startFiles (Suc fuel) h tr request files s = Some s'"
proof (induction files arbitrary: s)
  case Nil
  then show ?case by simp
next
  case (Cons p ps)
  show ?case
  proof (cases "endsWithSlash p")
    case True
    with Cons.prems have "\<forall>g\<in>set (getTestFilesInFolder tr p). \<not> endsWithSlash g" by simp
    from startFiles_plain_total[OF this, of fuel h tr request s]
    obtain mid where "startFiles fuel h tr request (getTestFilesInFolder tr p) s = Some mid" ..
    with True Cons.IH[of mid] Cons.prems show ?thesis by simp
  next
    case False
    with Cons.IH Cons.prems show ?thesis by simp
  qed
qed

lemma startFiles_registry_mono:
  "startFiles fuel h tr request files s = Some s' \<Longrightarrow> testRunsByFile s f = Some r
     \<Longrightarrow> testRunsByFile s' f = Some r"
proof (induction fuel h tr request files s arbitrary: s' rule: startFiles.induct)
  case (1 fuel h tr request s)
  then show ?case by simp
next
  case (2 fuel h tr request path files s)
  show ?case
  proof (cases "endsWithSlash path")
    case True
    with "2.prems"(1) obtain m mid where m: "fuel = Suc m"
        and mid: "startFiles m h tr request (getTestFilesInFolder tr path) s = Some mid"
        and rest: "startFiles fuel h tr request files mid = Some s'"
      by (auto split: nat.splits option.splits)
    from "2.IH"(1)[OF True m mid "2.prems"(2)] have "testRunsByFile mid f = Some r" .
    from "2.IH"(2)[OF True m mid rest this] show ?thesis .
  next
    case False
    note nf = False
    show ?thesis
    proof (cases "case req_include request of None \<Rightarrow> False | Some inc \<Rightarrow> \<not> isFileIncluded path inc")
      case True
      with nf "2.prems" "2.IH"(3) show ?thesis by simp
    next
      case False
      note inc = False
      show ?thesis
      proof (cases "testRunsByFile s path \<noteq> None")
        case True
        with nf inc "2.prems" "2.IH"(4) show ?thesis by simp
      next
        case False
        with "2.prems"(2) have "testRunsByFile (createAndRegister h tr request path s) f = Some r"
          by (auto simp: createAndRegister_fields)
        with nf inc False "2.prems"(1) "2.IH"(5) show ?thesis by simp
      qed
    qed
  qed
qed

lemma startFiles_requests:
  "startFiles fuel h tr request files s = Some s' \<Longrightarrow>
     simpleTestRunRequest s' = simpleTestRunRequest s \<and> continuousRequests s' = continuousRequests s"
proof (induction fuel h tr request files s arbitrary: s' rule: startFiles.induct)
  case (1 fuel h tr request s)
  then show ?case by simp
next
  case (2 fuel h tr request path files s)
  show ?case
  proof (cases "endsWithSlash path")
    case True
    with "2.prems"(1) obtain m mid where m: "fuel = Suc m"
        and mid: "startFiles m h tr request (getTestFilesInFolder tr path) s = Some mid"
        and rest: "startFiles fuel h tr request files mid = Some s'"
      by (auto split: nat.splits option.splits)
    from "2.IH"(1)[OF True m mid] "2.IH"(2)[OF True m mid rest] show ?thesis by simp
  next
    case False
    with "2.prems" "2.IH"(3,4,5) show ?thesis
      by (auto simp: createAndRegister_fields split: if_splits)
  qed
qed

lemma startFiles_again:
  "startFiles fuel h tr request files s = Some s' \<Longrightarrow>
   (\<And>f. testRunsByFile s' f \<noteq> None \<Longrightarrow> testRunsByFile t f \<noteq> None) \<Longrightarrow>
   startFiles fuel h tr request files t = Some t"
proof (induction fuel h tr request files s arbitrary: s' rule: startFiles.induct)
  case (1 fuel h tr request s)
  then show ?case by simp
next
  case (2 fuel h tr request path files s)
  note cover = "2.prems"(2)
  show ?case
  proof (cases "endsWithSlash path")
    case True
    with "2.prems"(1) obtain m mid where m: "fuel = Suc m"
        and mid: "startFiles m h tr request (getTestFilesInFolder tr path) s = Some mid"
        and rest: "startFiles fuel h tr request files mid = Some s'"
      by (auto split: nat.splits option.splits)
    have "testRunsByFile t f \<noteq> None" if "testRunsByFile mid f \<noteq> None" for f
      using that startFiles_registry_mono[OF rest] cover by fastforce
    from "2.IH"(1)[OF True m mid this]
    have a: "startFiles m h tr request (getTestFilesInFolder tr path) t = Some t" .
    from "2.IH"(2)[OF True m mid rest cover]
    have b: "startFiles fuel h tr request files t = Some t" .
    from True m a b show ?thesis by simp
  next
    case False
    note nf = False
    show ?thesis
    proof (cases "case req_include request of None \<Rightarrow> False | Some inc \<Rightarrow> \<not> isFileIncluded path inc")
      case True
      with nf "2.prems"(1) have "startFiles fuel h tr request files s = Some s'" by simp
      from "2.IH"(3)[OF nf True this cover] nf True show ?thesis by simp
    next
      case False
      note inc = False
      show ?thesis
      proof (cases "testRunsByFile s path \<noteq> None")
        case True
        with nf inc "2.prems"(1) have r: "startFiles fuel h tr request files s = Some s'" by simp
        from True startFiles_registry_mono[OF r] have "testRunsByFile s' path \<noteq> None" by fastforce
        then have "testRunsByFile t path \<noteq> None" by (rule cover)
        with "2.IH"(4)[OF nf inc True r cover] nf inc show ?thesis by simp
      next
        case False
        with nf inc "2.prems"(1)
        have r: "startFiles fuel h tr request files (createAndRegister h tr request path s) = Some s'"
          by simp
        have "testRunsByFile (createAndRegister h tr request path s) path = Some (length (runs s))"
          by (simp add: createAndRegister_fields)
        from startFiles_registry_mono[OF r this] have "testRunsByFile s' path \<noteq> None" by simp
        then have "testRunsByFile t path \<noteq> None" by (rule cover)
        with "2.IH"(5)[OF nf inc False r cover] nf inc show ?thesis by simp
      qed
    qed
  qed
qed

lemma enqueue_no_RunEnd: "RunEnd \<notin> set (enqueue item)"
  by (induction item rule: enqueue.induct) auto

lemma createAndRegister_active:
  assumes "activeRunsRegistered s" and "testRunsByFile s path = None"
  shows "activeRunsRegistered (createAndRegister h tr request path s)"
proof -
  have e: "ended (createAndRegister h tr request path s) run = ended s run" for run
    using enqueue_no_RunEnd by (auto simp: ended_def createAndRegister_fields)
  show ?thesis
    unfolding activeRunsRegistered_def
  proof (intro allI impI)
    fix run
    assume lt: "run < length (runs (createAndRegister h tr request path s))"
       and ne: "\<not> ended (createAndRegister h tr request path s) run"
    show "testRunsByFile (createAndRegister h tr request path s)
            (run_file (runs (createAndRegister h tr request path s) ! run)) = Some run"
    proof (cases "run < length (runs s)")
      case True
      with ne assms(1) have "testRunsByFile s (run_file (runs s ! run)) = Some run"
        by (simp add: activeRunsRegistered_def e)
      with True assms(2) show ?thesis
        by (auto simp: createAndRegister_fields nth_append)
    next
      case False
      with lt have "run = length (runs s)" by (simp add: createAndRegister_fields)
      then show ?thesis by (simp add: createAndRegister_fields)
    qed
  qed
qed

lemma startFiles_active:
  "startFiles fuel h tr request files s = Some s' \<Longrightarrow> activeRunsRegistered s
     \<Longrightarrow> activeRunsRegistered s'"
proof (induction fuel h tr request files s arbitrary: s' rule: startFiles.induct)
  case (1 fuel h tr request s)
  then show ?case by simp
next
  case (2 fuel h tr request path files s)
  show ?case
  proof (cases "endsWithSlash path")
    case True
    with "2.prems"(1) obtain m mid where m: "fuel = Suc m"
        and mid: "startFiles m h tr request (getTestFilesInFolder tr path) s = Some mid"
        and rest: "startFiles fuel h tr request files mid = Some s'"
      by (auto split: nat.splits option.splits)
    from "2.IH"(1)[OF True m mid "2.prems"(2)] "2.IH"(2)[OF True m mid rest] show ?thesis
      by blast
  next
    case False
    with "2.prems" "2.IH"(3,4,5) show ?thesis
      by (auto simp: createAndRegister_active split: if_splits)
  qed
qed

lemma activeRunsRegistered_one:
  "activeRunsRegistered s \<Longrightarrow> oneActiveRunPerFile s"
  unfolding activeRunsRegistered_def oneActiveRunPerFile_def
  by (metis option.inject)

lemma startTestRun_again:
  assumes "startTestRun fuel h tr files primaryRequest s = Some s1"
  shows "startTestRun fuel h tr files primaryRequest s1 = Some s1"
proof (cases "effectiveRequest primaryRequest s")
  case None
  with assms show ?thesis by (simp add: startTestRun_def)
next
  case (Some request)
  with assms have r: "startFiles fuel h tr request files s = Some s1"
    by (simp add: startTestRun_def)
  from startFiles_requests[OF r] have "effectiveRequest primaryRequest s1 = effectiveRequest primaryRequest s"
    by (auto simp: effectiveRequest_def createContinuousRequest_def split: option.splits)
  with Some have "effectiveRequest primaryRequest s1 = Some request" by simp
  with startFiles_again[OF r, of s1] show ?thesis
    by (simp add: startTestRun_def)
qed

lemma startTestRun_active:
  assumes "startTestRun fuel h tr files primaryRequest s = Some s1" and "activeRunsRegistered s"
  shows "activeRunsRegistered s1"
  using assms startFiles_active
  by (auto simp: startTestRun_def split: option.splits)

lemma startTestRun_single:
  assumes "\<not> endsWithSlash path"
  shows "\<exists>s1. startTestRun fuel h tr [path] primaryRequest s = Some s1
            \<and> length (runs s1) \<le> length (runs s) + 1
            \<and> (testRunsByFile s1 path \<noteq> None) =
                (testRunsByFile s path \<noteq> None
                 \<or> (\<exists>request. effectiveRequest primaryRequest s = Some request
                               \<and> reaches request path))"
  using assms
  by (cases "effectiveRequest primaryRequest s")
     (auto simp: startTestRun_def reaches_def createAndRegister_fields split: option.splits)

text \<open>
  The registry of a new runner is well formed, and starting runs keeps it so.
\<close>

lemma wfRegistry_initial: "wfRegistry initialRunner"
  by (simp add: wfRegistry_def initialRunner_def)

lemma createAndRegister_wf:
  "wfRegistry s \<Longrightarrow> wfRegistry (createAndRegister h tr request path s)"
  by (auto simp: wfRegistry_def createAndRegister_fields nth_append less_Suc_eq)

lemma startFiles_wf:
  "startFiles fuel h tr request files s = Some s' \<Longrightarrow> wfRegistry s \<Longrightarrow> wfRegistry s'"
proof (induction fuel h tr request files s arbitrary: s' rule: startFiles.induct)
  case (1 fuel h tr request s)
  then show ?case by simp
next
  case (2 fuel h tr request path files s)
  show ?case
  proof (cases "endsWithSlash path")
    case True
    with "2.prems"(1) obtain m mid where m: "fuel = Suc m"
        and mid: "startFiles m h tr request (getTestFilesInFolder tr path) s = Some mid"
        and rest: "startFiles fuel h tr request files mid = Some s'"
      by (auto split: nat.splits option.splits)
    from "2.IH"(1)[OF True m mid "2.prems"(2)] "2.IH"(2)[OF True m mid rest] show ?thesis
      by blast
  next
    case False
    with "2.prems" "2.IH"(3,4,5) show ?thesis
      by (auto simp: createAndRegister_wf split: if_splits)
  qed
qed

text \<open>
  C7 (as amended): starting runs is idempotent. When \<open>startTestRun\<close> returns, a second
  call with the same files and request changes nothing and creates no run; and if every
  run that had not ended was the one registered for its file, this stays so, hence no two
  runs that have not ended share a file. For a path that is not a folder marker the call
  always returns, creates at most one run, and the path has a registered run afterwards
  exactly when it had one before or the effective request reaches it.
\<close>

theorem startTestRun_twice:
  "(\<forall>s1. startTestRun fuel h tr files primaryRequest s = Some s1 \<longrightarrow>
       startTestRun fuel h tr files primaryRequest s1 = Some s1
       \<and> (activeRunsRegistered s \<longrightarrow> activeRunsRegistered s1 \<and> oneActiveRunPerFile s1))
   \<and> (\<not> endsWithSlash path \<longrightarrow>
        (\<exists>s1. startTestRun fuel h tr [path] primaryRequest s = Some s1
            \<and> length (runs s1) \<le> length (runs s) + 1
            \<and> (testRunsByFile s1 path \<noteq> None) =
                (testRunsByFile s path \<noteq> None
                 \<or> (\<exists>request. effectiveRequest primaryRequest s = Some request
                               \<and> reaches request path))))"
proof (intro conjI allI impI)
  fix s1
  assume a: "startTestRun fuel h tr files primaryRequest s = Some s1"
  then show "startTestRun fuel h tr files primaryRequest s1 = Some s1"
    by (rule startTestRun_again)
  assume "activeRunsRegistered s"
  with a show "activeRunsRegistered s1" by (rule startTestRun_active)
  then show "oneActiveRunPerFile s1" by (rule activeRunsRegistered_one)
next
  assume "\<not> endsWithSlash path"
  then show "\<exists>s1. startTestRun fuel h tr [path] primaryRequest s = Some s1
            \<and> length (runs s1) \<le> length (runs s) + 1
            \<and> (testRunsByFile s1 path \<noteq> None) =
                (testRunsByFile s path \<noteq> None
                 \<or> (\<exists>request. effectiveRequest primaryRequest s = Some request
                               \<and> reaches request path))"
    by (rule startTestRun_single)
qed

text \<open>
  The sample file under a request that includes it: one run, also after a second call.
\<close>

theorem startTestRun_twice_witness:
  "\<exists>s1. startTestRun 0 sampleHost sampleTree [''/p/a.test.ts''] (Some sampleIncludeRequest)
            initialRunner = Some s1
        \<and> startTestRun 0 sampleHost sampleTree [''/p/a.test.ts''] (Some sampleIncludeRequest) s1
            = Some s1
        \<and> testRunsByFile s1 ''/p/a.test.ts'' \<noteq> None
        \<and> length (runs s1) \<le> 1
        \<and> oneActiveRunPerFile s1"
proof -
  have ns: "\<not> endsWithSlash ''/p/a.test.ts''"
    by (simp add: endsWithSlash_def)
  have r: "effectiveRequest (Some sampleIncludeRequest) initialRunner = Some sampleIncludeRequest"
    by (simp add: effectiveRequest_def)
  have i: "reaches sampleIncludeRequest ''/p/a.test.ts''"
    by (simp add: reaches_def sampleIncludeRequest_def sampleFile_def)
  have a: "activeRunsRegistered initialRunner"
    by (simp add: activeRunsRegistered_def initialRunner_def)
  have l: "length (runs initialRunner) = 0"
    by (simp add: initialRunner_def)
  note t = startTestRun_twice[of 0 sampleHost sampleTree "[''/p/a.test.ts'']"
              "Some sampleIncludeRequest" initialRunner "''/p/a.test.ts''"]
  from t ns obtain s1 where
      s1: "startTestRun 0 sampleHost sampleTree [''/p/a.test.ts''] (Some sampleIncludeRequest)
             initialRunner = Some s1"
      and n: "length (runs s1) \<le> length (runs initialRunner) + 1"
      and g: "(testRunsByFile s1 ''/p/a.test.ts'' \<noteq> None) =
                (testRunsByFile initialRunner ''/p/a.test.ts'' \<noteq> None
                 \<or> (\<exists>request. effectiveRequest (Some sampleIncludeRequest) initialRunner = Some request
                               \<and> reaches request ''/p/a.test.ts''))"
    by blast
  from t s1 a have "startTestRun 0 sampleHost sampleTree [''/p/a.test.ts'']
                      (Some sampleIncludeRequest) s1 = Some s1 \<and> oneActiveRunPerFile s1"
    by blast
  moreover from g r i have "testRunsByFile s1 ''/p/a.test.ts'' \<noteq> None" by blast
  moreover from n l have "length (runs s1) \<le> 1" by simp
  ultimately show ?thesis using s1 by blast
qed

text \<open>
  A file that the inclusion filter of the request does not reach: the algorithm returns
  the state as it was, and no run is registered for the file, however often it is called.
\<close>

theorem startTestRun_twice_counterexample:
  "\<not> endsWithSlash ''/p/b.test.ts''
   \<and> \<not> reaches sampleIncludeRequest ''/p/b.test.ts''
   \<and> startTestRun 0 sampleHost sampleTree [''/p/b.test.ts''] (Some sampleIncludeRequest) initialRunner
     = Some initialRunner
   \<and> testRunsByFile initialRunner ''/p/b.test.ts'' = None
   \<and> runs initialRunner = []"
  by (simp add: startTestRun_def effectiveRequest_def endsWithSlash_def reaches_def
        sampleIncludeRequest_def sampleFile_def initialRunner_def)

subsection \<open>Finished events\<close>

lemma getTestRunByData_ownerPath:
  "getTestRunByData s d = (case ownerPath d of None \<Rightarrow> None | Some p \<Rightarrow> testRunsByFile s p)"
  by (simp add: getTestRunByData_def ownerPath_def split: test_data.splits)

lemma keepsFile_refl: "wfRegistry s \<Longrightarrow> keepsFile path s s"
  by (simp add: keepsFile_def)

lemma keepsFile_trans: "keepsFile path s s1 \<Longrightarrow> keepsFile path s1 s2 \<Longrightarrow> keepsFile path s s2"
  by (simp add: keepsFile_def)

lemma markResult_frame:
  assumes "markResult h testRun test result task s = (e, s')"
  shows "testRunsByFile s' = testRunsByFile s \<and> runs s' = runs s
         \<and> (\<forall>run. run \<noteq> testRun \<longrightarrow> reportsOf s' run = reportsOf s run)"
proof -
  have r: "testRunsByFile (report testRun c t) = testRunsByFile t \<and> runs (report testRun c t) = runs t
           \<and> (\<forall>run. run \<noteq> testRun \<longrightarrow> reportsOf (report testRun c t) run = reportsOf t run)" for c t
    by (simp add: report_def reportsOf_def)
  have l: "testRunsByFile (logEntry c t) = testRunsByFile t \<and> runs (logEntry c t) = runs t
           \<and> (\<forall>run. reportsOf (logEntry c t) run = reportsOf t run)" for c t
    by (simp add: logEntry_def reportsOf_def)
  have i: "reportsOf (t\<lparr>itemError := x\<rparr>) run = reportsOf t run" for t x run
    by (simp add: reportsOf_def)
  show ?thesis
  proof (cases result)
    case None
    with assms r show ?thesis by (auto simp: markResult_def)
  next
    case (Some res)
    show ?thesis
    proof (cases "res_state res")
      case Fail
      with assms Some r[of _ s] r[of _ "s\<lparr>itemError := _\<rparr>"] i show ?thesis
        by (auto simp: markResult_def Let_def split: if_splits option.splits sum.splits)
    qed (use assms Some r l in \<open>auto simp: markResult_def\<close>)
  qed
qed

lemma report_other_run:
  assumes "wfRegistry s" and "testRunsByFile s q = Some testRun" and "q \<noteq> path"
  shows "keepsFile path s (report testRun c s)"
proof -
  have "run \<noteq> testRun" if "testRunsByFile s path = Some run" for run
    using that assms by (auto simp: wfRegistry_def)
  then show ?thesis
    using assms(1) by (auto simp: keepsFile_def report_def wfRegistry_def reportsOf_def)
qed

lemma markResult_other_run:
  assumes "wfRegistry s" and "testRunsByFile s q = Some testRun" and "q \<noteq> path"
      and "markResult h testRun test result task s = (e, s')"
  shows "keepsFile path s s'"
proof -
  from markResult_frame[OF assms(4)]
  have f: "testRunsByFile s' = testRunsByFile s" "runs s' = runs s"
          "\<And>run. run \<noteq> testRun \<Longrightarrow> reportsOf s' run = reportsOf s run"
    by auto
  have "run \<noteq> testRun" if "testRunsByFile s path = Some run" for run
    using that assms(1,2,3) by (auto simp: wfRegistry_def)
  with f assms(1) show ?thesis
    by (auto simp: keepsFile_def wfRegistry_def)
qed

lemma endTestRun_other_run:
  assumes "wfRegistry s" and "testRunsByFile s q = Some testRun" and "q \<noteq> path"
  shows "keepsFile path s (endTestRun testRun s)"
proof -
  from assms(1,2) have lt: "testRun < length (runs s)" and rf: "run_file (runs s ! testRun) = q"
    by (auto simp: wfRegistry_def)
  have "run \<noteq> testRun" if "testRunsByFile s path = Some run" for run
    using that assms by (auto simp: wfRegistry_def)
  then show ?thesis
    using assms(1,3) lt rf
    by (auto simp: keepsFile_def endTestRun_def report_def wfRegistry_def reportsOf_def)
qed

text \<open>The step of the handler for a file that does not resolve does nothing.\<close>

lemma finishedStep_unresolved:
  "getTestDataByTask tr f = None \<Longrightarrow> finishedStep h tr f s = (None, s)"
  by (simp add: finishedStep_def)

lemma finishedStep_keeps:
  assumes "wfRegistry s"
      and "\<And>d. getTestDataByTask tr g = Some d \<Longrightarrow> ownerPath (item_data d) \<noteq> Some path"
      and "finishedStep h tr g s = (e, s')"
  shows "keepsFile path s s'"
proof (cases "getTestDataByTask tr g")
  case None
  with assms(3) have "s' = s" by (simp add: finishedStep_def)
  with assms(1) show ?thesis by (simp add: keepsFile_refl)
next
  case (Some d)
  show ?thesis
  proof (cases "getTestRunByData s (item_data d)")
    case None
    with Some assms(3) have "s' = s" by (simp add: finishedStep_def)
    with assms(1) show ?thesis by (simp add: keepsFile_refl)
  next
    case (Some testRun)
    then obtain q where q: "ownerPath (item_data d) = Some q" "testRunsByFile s q = Some testRun"
      by (auto simp: getTestRunByData_ownerPath split: option.splits)
    with assms(2)[OF \<open>getTestDataByTask tr g = Some d\<close>] have ne: "q \<noteq> path" by auto
    obtain e1 s1 where m: "markResult h testRun d (task_result g) (Some g) s = (e1, s1)"
      by (cases "markResult h testRun d (task_result g) (Some g) s") auto
    from markResult_other_run[OF assms(1) q(2) ne m] have k1: "keepsFile path s s1" .
    show ?thesis
    proof (cases e1)
      case (Some err)
      with m \<open>getTestDataByTask tr g = Some d\<close> \<open>getTestRunByData s (item_data d) = Some testRun\<close>
        assms(3) have "s' = s1" by (simp add: finishedStep_def)
      with k1 show ?thesis by simp
    next
      case None
      with m \<open>getTestDataByTask tr g = Some d\<close> \<open>getTestRunByData s (item_data d) = Some testRun\<close>
        assms(3) have s': "s' = endTestRun testRun s1" by (simp add: finishedStep_def)
      from markResult_frame[OF m] q(2) have "testRunsByFile s1 q = Some testRun" by simp
      moreover from k1 have "wfRegistry s1" by (simp add: keepsFile_def)
      ultimately have "keepsFile path s1 (endTestRun testRun s1)"
        using ne by (intro endTestRun_other_run)
      with k1 s' show ?thesis by (auto intro: keepsFile_trans)
    qed
  qed
qed

lemma forEach_finishedStep_keeps:
  "wfRegistry s \<Longrightarrow>
   (\<And>g d. g \<in> set files \<Longrightarrow> getTestDataByTask tr g = Some d
             \<Longrightarrow> ownerPath (item_data d) \<noteq> Some path) \<Longrightarrow>
   forEachE (finishedStep h tr) files s = (e, s') \<Longrightarrow> keepsFile path s s'"
proof (induction files arbitrary: s)
  case Nil
  then show ?case by (simp add: keepsFile_refl)
next
  case (Cons g gs)
  obtain e1 s1 where st: "finishedStep h tr g s = (e1, s1)"
    by (cases "finishedStep h tr g s") auto
  have k1: "keepsFile path s s1"
    using Cons.prems(1,2) st by (intro finishedStep_keeps[of s tr g path h e1 s1]) auto
  show ?case
  proof (cases e1)
    case (Some err)
    with st Cons.prems(3) have "s' = s1" by simp
    with k1 show ?thesis by simp
  next
    case None
    with st Cons.prems(3) have r: "forEachE (finishedStep h tr) gs s1 = (e, s')" by simp
    from k1 have "wfRegistry s1" by (simp add: keepsFile_def)
    from Cons.IH[OF this _ r] Cons.prems(2) have "keepsFile path s1 s'" by auto
    with k1 show ?thesis by (rule keepsFile_trans)
  qed
qed

lemma applyCoverageAll_keeps:
  "wfRegistry s \<Longrightarrow>
   (\<And>g d. g \<in> set files \<Longrightarrow> getTestDataByTask tr g = Some d
             \<Longrightarrow> ownerPath (item_data d) \<noteq> Some path) \<Longrightarrow>
   applyCoverageAll h tr dir files s = (e, s') \<Longrightarrow> keepsFile path s s'"
proof (induction files arbitrary: s e)
  case Nil
  then show ?case by (simp add: keepsFile_refl)
next
  case (Cons g gs)
  have rest: "\<And>g' d. g' \<in> set gs \<Longrightarrow> getTestDataByTask tr g' = Some d
                \<Longrightarrow> ownerPath (item_data d) \<noteq> Some path"
    using Cons.prems(2) by auto
  show ?case
  proof (cases "case getTestDataByTask tr g of None \<Rightarrow> None
                | Some d \<Rightarrow> getTestRunByData s (item_data d)")
    case None
    with Cons.prems(3) have "applyCoverageAll h tr dir gs s = (e, s')" by simp
    from Cons.IH[OF Cons.prems(1) rest this] show ?thesis by simp
  next
    case (Some testRun)
    then obtain d q where d: "getTestDataByTask tr g = Some d"
        and q: "ownerPath (item_data d) = Some q" "testRunsByFile s q = Some testRun"
      by (auto simp: getTestRunByData_ownerPath split: option.splits)
    from Cons.prems(2)[of g d] d q have ne: "q \<noteq> path" by auto
    show ?thesis
    proof (cases "applyCoverage h testRun dir")
      case None
      with Some Cons.prems(3)
      have r: "applyCoverageAll h tr dir gs (report testRun (AddCoverage dir) s) = (e, s')" by simp
      have k1: "keepsFile path s (report testRun (AddCoverage dir) s)"
        using Cons.prems(1) q(2) ne by (rule report_other_run)
      then have "wfRegistry (report testRun (AddCoverage dir) s)" by (simp add: keepsFile_def)
      from Cons.IH[OF this rest r] k1 show ?thesis by (auto intro: keepsFile_trans)
    next
      case (Some err)
      obtain e2 s2 where r: "applyCoverageAll h tr dir gs s = (e2, s2)"
        by (cases "applyCoverageAll h tr dir gs s") auto
      with Some \<open>(case getTestDataByTask tr g of None \<Rightarrow> None
                | Some d \<Rightarrow> getTestRunByData s (item_data d)) = Some testRun\<close> Cons.prems(3)
      have "s' = s2" by simp
      with r have "applyCoverageAll h tr dir gs s = (e2, s')" by simp
      from Cons.IH[OF Cons.prems(1) rest this] show ?thesis .
    qed
  qed
qed

lemma reportCoverage_keeps:
  assumes "wfRegistry s"
      and "\<And>g d. g \<in> set files \<Longrightarrow> getTestDataByTask tr g = Some d
             \<Longrightarrow> ownerPath (item_data d) \<noteq> Some path"
      and "reportCoverage h tr files s = (e, s')"
  shows "keepsFile path s s'"
  using assms applyCoverageAll_keeps[of s files tr path h _ e s']
  by (auto simp: reportCoverage_def keepsFile_refl split: if_splits sum.splits option.splits)

text \<open>
  C10 (as amended): in a finished event handled with a well-formed registry, a listed file
  whose task does not resolve to test data keeps its entry in the registry and its run
  gets no call at all (no result, no \<open>end\<close>), provided that no listed file resolves to
  test data owned by the same path.
\<close>

theorem onFinished_unresolved_file:
  assumes "wfRegistry s"
      and "f \<in> set files" and "getTestDataByTask tr f = None"
      and "\<forall>g\<in>set files. \<forall>d. getTestDataByTask tr g = Some d
              \<longrightarrow> ownerPath (item_data d) \<noteq> Some (task_filepath f)"
  shows "testRunsByFile (snd (onFinished h tr (Some files) s)) (task_filepath f)
           = testRunsByFile s (task_filepath f)
         \<and> (\<forall>run. testRunsByFile s (task_filepath f) = Some run
               \<longrightarrow> reportsOf (snd (onFinished h tr (Some files) s)) run = reportsOf s run)"
proof -
  let ?p = "task_filepath f"
  have other: "\<And>g d. g \<in> set files \<Longrightarrow> getTestDataByTask tr g = Some d
                 \<Longrightarrow> ownerPath (item_data d) \<noteq> Some ?p"
    using assms(4) by blast
  obtain e0 s0 where c: "reportCoverage h tr files s = (e0, s0)"
    by (cases "reportCoverage h tr files s") auto
  from reportCoverage_keeps[OF assms(1) other c] have k0: "keepsFile ?p s s0" .
  define s1 where "s1 = (case e0 of None \<Rightarrow> s0
                          | Some err \<Rightarrow> s0\<lparr>shownErrors := shownErrors s0
                                               @ [(''Failed to report coverage.'', err)]\<rparr>)"
  have k1: "keepsFile ?p s s1"
    using k0 by (cases e0) (auto simp: s1_def keepsFile_def wfRegistry_def reportsOf_def)
  then have w1: "wfRegistry s1" by (simp add: keepsFile_def)
  obtain e2 s2 where l: "forEachE (finishedStep h tr) files s1 = (e2, s2)"
    by (cases "forEachE (finishedStep h tr) files s1") auto
  from forEach_finishedStep_keeps[OF w1 other l] k1 have "keepsFile ?p s s2"
    by (auto intro: keepsFile_trans)
  moreover have "onFinished h tr (Some files) s = (e2, s2)"
    using c l by (cases e0) (simp_all add: onFinished_def s1_def)
  ultimately show ?thesis by (simp add: keepsFile_def)
qed

text \<open>
  An unresolved file of another path, listed together with a file that resolves: its
  entry and its run are untouched.
\<close>

theorem onFinished_unresolved_file_witness:
  "getTestDataByTask sampleTree sampleOtherUnknown = None
   \<and> testRunsByFile
        (snd (onFinished sampleHost sampleTree (Some [sampleOtherUnknown, sampleFilePass])
                sampleTwoRuns)) ''/p/b.test.ts'' = Some 1
   \<and> reportsOf
        (snd (onFinished sampleHost sampleTree (Some [sampleOtherUnknown, sampleFilePass])
                sampleTwoRuns)) 1 = []"
proof -
  have w: "wfRegistry sampleTwoRuns"
    by (auto simp: wfRegistry_def sampleTwoRuns_def initialRunner_def split: if_splits)
  have m: "sampleOtherUnknown \<in> set [sampleOtherUnknown, sampleFilePass]"
    by simp
  have u: "getTestDataByTask sampleTree sampleOtherUnknown = None"
    by (simp add: sampleTree_def sampleOtherUnknown_def sampleFilePass_def)
  have p: "task_filepath sampleOtherUnknown = ''/p/b.test.ts''"
    by (simp add: sampleOtherUnknown_def)
  have o: "\<forall>g\<in>set [sampleOtherUnknown, sampleFilePass]. \<forall>d. getTestDataByTask sampleTree g = Some d
              \<longrightarrow> ownerPath (item_data d) \<noteq> Some (task_filepath sampleOtherUnknown)"
    by (simp add: p u sampleTree_def sampleFilePass_def sampleFile_def ownerPath_def)
  have b: "testRunsByFile sampleTwoRuns ''/p/b.test.ts'' = Some 1"
    by (simp add: sampleTwoRuns_def initialRunner_def)
  have r: "reportsOf sampleTwoRuns 1 = []"
    by (simp add: reportsOf_def sampleTwoRuns_def initialRunner_def)
  from onFinished_unresolved_file[OF w m u o, of sampleHost] p u b r show ?thesis
    by simp
qed

text \<open>
  Two listed files with the same path, of which only the first resolves: handling the
  first one reports its result on the run of that path, ends the run and removes it from
  the registry.
\<close>

theorem onFinished_unresolved_file_counterexample:
  "getTestDataByTask sampleTree sampleFileUnknown = None
   \<and> task_filepath sampleFileUnknown = ''/p/a.test.ts''
   \<and> testRunsByFile sampleRunning ''/p/a.test.ts'' = Some 0
   \<and> testRunsByFile
        (snd (onFinished sampleHost sampleTree (Some [sampleFilePass, sampleFileUnknown])
                sampleRunning)) ''/p/a.test.ts'' = None
   \<and> reports
        (snd (onFinished sampleHost sampleTree (Some [sampleFilePass, sampleFileUnknown])
                sampleRunning)) = [(0, Passed sampleFile (Some 12)), (0, RunEnd)]"
  by (simp add: onFinished_def reportCoverage_def finishedStep_def markResult_def
        endTestRun_def report_def getTestRunByData_def
        sampleFileUnknown_def sampleFilePass_def sampleTree_def sampleHost_def
        sampleRunning_def initialRunner_def sampleFile_def)

end
